theory Spec2Isabelle
  imports Complex_Main "HOL-Library.AList" "HOL-Library.Log_Nat"
begin

section \<open>Python values shared by the scraper modules\<close>

text \<open>
  The scraper keeps its persistent documents as JSON. A Python \<open>dict\<close> with string keys is
  an association list in insertion order (the order \<open>dict.items()\<close> iterates in);
  \<open>d[k] = v\<close> is \<open>AList.update\<close>, which overwrites in place or appends at the end, as
  Python does. Floats do not occur in the values modelled below.
\<close>

datatype json =
    JNull
  | JBool bool
  | JInt int
  | JStr string
  | JArr "json list"
  | JObj "(string \<times> json) list"

type_synonym pydict = "(string \<times> json) list"

text \<open>
  Exceptions are values. \<open>TypeError\<close> also stands for \<open>AttributeError\<close>: which of the two
  Python raises on an ill-shaped value depends only on the operation that meets it first.
\<close>

datatype py_error = KeyError | TypeError | ValueError | OverflowError | Exception string

definition bind_err :: "py_error + 'a \<Rightarrow> ('a \<Rightarrow> py_error + 'b) \<Rightarrow> py_error + 'b" where
  "bind_err m f = (case m of Inl e \<Rightarrow> Inl e | Inr x \<Rightarrow> f x)"

definition dict_get :: "pydict \<Rightarrow> string \<Rightarrow> json \<Rightarrow> json" where
  \<comment> \<open>\<open>d.get(k, default)\<close>\<close>
  "dict_get d k dflt = (case map_of d k of Some v \<Rightarrow> v | None \<Rightarrow> dflt)"

definition has_key :: "pydict \<Rightarrow> string \<Rightarrow> bool" where
  \<comment> \<open>\<open>k in d\<close>\<close>
  "has_key d k = (map_of d k \<noteq> None)"

definition dict_item :: "pydict \<Rightarrow> string \<Rightarrow> py_error + json" where
  \<comment> \<open>\<open>d[k]\<close>\<close>
  "dict_item d k = (case map_of d k of Some v \<Rightarrow> Inr v | None \<Rightarrow> Inl KeyError)"

definition as_dict :: "json \<Rightarrow> py_error + pydict" where
  \<comment> \<open>the value is used as a dict (\<open>.get\<close>, \<open>.items()\<close>, item assignment): anything else raises\<close>
  "as_dict v = (case v of JObj d \<Rightarrow> Inr d | _ \<Rightarrow> Inl TypeError)"

definition returned :: "py_error + 'a \<Rightarrow> bool" where
  \<comment> \<open>the call returned; it did not raise\<close>
  "returned res = (case res of Inl e \<Rightarrow> False | Inr x \<Rightarrow> True)"

section \<open>progress\_manager.py\<close>

subsection \<open>Dict objects\<close>

text \<open>
  \<open>mark_completed\<close> writes two keys into the dict it is handed and appends that very
  object to \<open>scraped_data\<close>: the caller and the list share it. Dict objects therefore live
  on a heap. \<open>cells\<close> maps the address of an object to its content, \<open>next_ref\<close> is the
  first address not yet in use, and \<open>scraped_data\<close> holds addresses.
\<close>

record heap =
  cells :: "nat \<Rightarrow> pydict"
  next_ref :: nat

definition new_dict :: "pydict \<Rightarrow> heap \<Rightarrow> nat \<times> heap" where
  \<comment> \<open>a dict literal, or a dict built by \<open>json.load\<close>: a new object\<close>
  "new_dict d h =
     (next_ref h, h\<lparr>cells := (cells h)(next_ref h := d), next_ref := next_ref h + 1\<rparr>)"

fun new_dicts :: "pydict list \<Rightarrow> heap \<Rightarrow> nat list \<times> heap" where
  "new_dicts [] h = ([], h)"
| "new_dicts (d # ds) h =
     (let (a, h1) = new_dict d h;
          (rest, h2) = new_dicts ds h1
      in (a # rest, h2))"

subsection \<open>ProgressState\<close>

record ProgressState =
  task_id :: string
  start_url :: string
  created_at :: string
  updated_at :: string
  status :: string
  total_urls :: int
  completed_urls :: int
  failed_urls :: int
  current_page :: int
  urls_to_scrape :: "string list"
  completed_url_list :: "string list"
  failed_url_list :: "string list"
  scraped_data :: "nat list"
  last_url :: "string option"
  next_url :: "string option"
  pagination_type :: "string option"
  last_error :: "string option"
  retry_count :: int
  max_retries :: int
  config :: pydict
  notes_str :: string

definition ProgressState_new :: "string \<Rightarrow> string \<Rightarrow> string \<Rightarrow> ProgressState" where
  \<comment> \<open>\<open>ProgressState(task_id=..., start_url=...)\<close> with the dataclass defaults; \<open>now\<close> is the clock\<close>
  "ProgressState_new tid url now =
     \<lparr> task_id = tid, start_url = url, created_at = now, updated_at = now,
       status = ''in_progress'',
       total_urls = 0, completed_urls = 0, failed_urls = 0, current_page = 0,
       urls_to_scrape = [], completed_url_list = [], failed_url_list = [],
       scraped_data = [],
       last_url = None, next_url = None, pagination_type = None,
       last_error = None, retry_count = 0, max_retries = 3,
       config = [], notes_str = [] \<rparr>"

subsection \<open>ProgressManager\<close>

text \<open>
  The manager owns the state, the private set \<open>_completed_set\<close> and the auto-save
  counter. The progress file is part of the model: \<open>progress_file\<close> is what was written
  last, the state together with the contents that the dicts of \<open>scraped_data\<close> had at that
  moment (\<open>None\<close> when the file does not exist). Every reading of \<open>datetime.now()\<close> is a
  parameter of the operation that reads it.
\<close>

record ProgressManager =
  auto_save :: bool
  save_interval :: int
  completions_since_save :: int
  manager_task_id :: string
  progress_file :: "(ProgressState \<times> pydict list) option"
  state :: ProgressState
  completed_set :: "string set"

definition ProgressManager_init ::
    "string \<Rightarrow> string option \<Rightarrow> bool \<Rightarrow> int \<Rightarrow> (ProgressState \<times> pydict list) option \<Rightarrow> string
       \<Rightarrow> heap \<Rightarrow> heap \<times> ProgressManager" where
  \<comment> \<open>\<open>__init__\<close> with the task id already resolved (an explicit \<open>task_id\<close>; the md5 and
      timestamp derivations are not modelled) and \<open>stored\<close> the content of the task's
      progress file, if there is one (a file that cannot be parsed is not modelled);
      loading builds a new dict object for every stored result\<close>
  "ProgressManager_init tid start autosave interval stored now h =
     (let (h1, st) =
            (case stored of
               Some (s, ds) \<Rightarrow>
                 (let (refs, h') = new_dicts ds h in (h', s\<lparr>scraped_data := refs\<rparr>))
             | None \<Rightarrow>
                 (h, ProgressState_new tid (case start of Some u \<Rightarrow> u | None \<Rightarrow> []) now))
      in (h1, \<lparr> auto_save = autosave, save_interval = interval, completions_since_save = 0,
                manager_task_id = tid, progress_file = stored, state = st,
                completed_set = set (completed_url_list st) \<rparr>))"

definition save :: "string \<Rightarrow> heap \<Rightarrow> ProgressManager \<Rightarrow> ProgressManager" where
  "save now h pm =
     (let st = (state pm)\<lparr>updated_at := now\<rparr>
      in pm\<lparr>state := st, progress_file := Some (st, map (cells h) (scraped_data st))\<rparr>)"

definition maybe_auto_save :: "string \<Rightarrow> heap \<Rightarrow> ProgressManager \<Rightarrow> ProgressManager" where
  "maybe_auto_save now h pm =
     (if auto_save pm then
        (let pm1 = pm\<lparr>completions_since_save := completions_since_save pm + 1\<rparr>
         in if completions_since_save pm1 \<ge> save_interval pm1
            then (save now h pm1)\<lparr>completions_since_save := 0\<rparr>
            else pm1)
      else pm)"

definition is_completed :: "ProgressManager \<Rightarrow> string \<Rightarrow> bool" where
  "is_completed pm u = (u \<in> completed_set pm)"

definition is_failed :: "ProgressManager \<Rightarrow> string \<Rightarrow> bool" where
  "is_failed pm u = (u \<in> set (failed_url_list (state pm)))"

definition set_urls :: "string list \<Rightarrow> string \<Rightarrow> heap \<Rightarrow> ProgressManager \<Rightarrow> ProgressManager" where
  "set_urls urls now h pm =
     maybe_auto_save now h
       (pm\<lparr>state := (state pm)\<lparr>urls_to_scrape := urls, total_urls := int (length urls)\<rparr>\<rparr>)"

definition get_remaining_urls :: "ProgressManager \<Rightarrow> string list" where
  "get_remaining_urls pm =
     filter (\<lambda>u. u \<notin> completed_set pm \<and> u \<notin> set (failed_url_list (state pm)))
       (urls_to_scrape (state pm))"

text \<open>
  \<open>mark_completed(url, data)\<close>. \<open>data\<close> is \<open>Optional[Dict]\<close>: \<open>None\<close> or the address of the
  caller's dict. \<open>if data:\<close> is false for \<open>None\<close> and for an empty dict. The two item
  assignments change the object itself, and the list receives its address.
\<close>

definition dict_truthy :: "heap \<Rightarrow> nat option \<Rightarrow> bool" where
  \<comment> \<open>\<open>if data:\<close> for an \<open>Optional[Dict]\<close>\<close>
  "dict_truthy h data = (case data of None \<Rightarrow> False | Some a \<Rightarrow> cells h a \<noteq> [])"

definition mark_completed ::
    "string \<Rightarrow> nat option \<Rightarrow> string \<Rightarrow> string \<Rightarrow> heap \<Rightarrow> ProgressManager
       \<Rightarrow> heap \<times> ProgressManager" where
  "mark_completed u data now_scraped now_saved h pm =
     (let pm1 = (if u \<notin> completed_set pm
                 then pm\<lparr> completed_set := insert u (completed_set pm),
                          state := (state pm)
                            \<lparr> completed_url_list := completed_url_list (state pm) @ [u],
                              completed_urls := completed_urls (state pm) + 1 \<rparr> \<rparr>
                 else pm);
          pm2 = pm1\<lparr>state := (state pm1)\<lparr>last_url := Some u, retry_count := 0\<rparr>\<rparr>;
          (h3, pm3) =
            (case data of
               None \<Rightarrow> (h, pm2)
             | Some a \<Rightarrow>
                 if cells h a = [] then (h, pm2)
                 else
                   (h\<lparr>cells := (cells h)
                        (a := AList.update ''_url'' (JStr u)
                                (AList.update ''_scraped_at'' (JStr now_scraped) (cells h a)))\<rparr>,
                    pm2\<lparr>state := (state pm2)
                          \<lparr>scraped_data := scraped_data (state pm2) @ [a]\<rparr>\<rparr>))
      in (h3, maybe_auto_save now_saved h3 pm3))"

definition mark_failed ::
    "string \<Rightarrow> string \<Rightarrow> string \<Rightarrow> heap \<Rightarrow> ProgressManager \<Rightarrow> ProgressManager" where
  "mark_failed u err now_saved h pm =
     (let pm1 = (if u \<notin> set (failed_url_list (state pm))
                 then pm\<lparr>state := (state pm)
                          \<lparr> failed_url_list := failed_url_list (state pm) @ [u],
                            failed_urls := failed_urls (state pm) + 1 \<rparr>\<rparr>
                 else pm);
          pm2 = pm1\<lparr>state := (state pm1)
                   \<lparr>last_error := Some err, retry_count := retry_count (state pm1) + 1\<rparr>\<rparr>
      in maybe_auto_save now_saved h pm2)"

text \<open>A caller's sequence of completion and failure reports, applied in order.\<close>

datatype progress_call =
    MarkCompleted string "nat option" string string
  | MarkFailed string string string

fun apply_call :: "progress_call \<Rightarrow> heap \<times> ProgressManager \<Rightarrow> heap \<times> ProgressManager" where
  "apply_call (MarkCompleted u data t1 t2) (h, pm) = mark_completed u data t1 t2 h pm"
| "apply_call (MarkFailed u err t) (h, pm) = (h, mark_failed u err t h pm)"

fun run_calls :: "progress_call list \<Rightarrow> heap \<times> ProgressManager \<Rightarrow> heap \<times> ProgressManager" where
  "run_calls [] w = w"
| "run_calls (c # cs) w = run_calls cs (apply_call c w)"

fun completed_in :: "progress_call list \<Rightarrow> string set" where
  "completed_in [] = {}"
| "completed_in (MarkCompleted u data t1 t2 # cs) = insert u (completed_in cs)"
| "completed_in (MarkFailed u err t # cs) = completed_in cs"

fun failed_in :: "progress_call list \<Rightarrow> string set" where
  "failed_in [] = {}"
| "failed_in (MarkCompleted u data t1 t2 # cs) = failed_in cs"
| "failed_in (MarkFailed u err t # cs) = insert u (failed_in cs)"

definition entries_for :: "string \<Rightarrow> heap \<Rightarrow> nat list \<Rightarrow> nat list" where
  \<comment> \<open>the entries of a result list whose dict carries the source URL \<open>u\<close>\<close>
  "entries_for u h refs = filter (\<lambda>a. map_of (cells h a) ''_url'' = Some (JStr u)) refs"

section \<open>crawl4ai\_wrapper.py: AdaptiveRateLimiter\<close>

datatype BlockLevel = NONE | LIGHT | MODERATE | SEVERE

fun BlockLevel_value :: "BlockLevel \<Rightarrow> int" where
  "BlockLevel_value NONE = 0"
| "BlockLevel_value LIGHT = 1"
| "BlockLevel_value MODERATE = 2"
| "BlockLevel_value SEVERE = 3"

definition BlockLevel_of :: "int \<Rightarrow> py_error + BlockLevel" where
  \<comment> \<open>the enum's constructor \<open>BlockLevel(v)\<close>: \<open>ValueError\<close> when no member has the value\<close>
  "BlockLevel_of v =
     (if v = 0 then Inr NONE
      else if v = 1 then Inr LIGHT
      else if v = 2 then Inr MODERATE
      else if v = 3 then Inr SEVERE
      else Inl ValueError)"

text \<open>
  The limiter's counters. Its \<open>config\<close> (the float delays) and \<open>known_block_threshold\<close>
  are read and written by neither \<open>report_success\<close> nor \<open>report_failure\<close> and are left
  out of the record.
\<close>

record AdaptiveRateLimiter =
  block_level :: BlockLevel
  consecutive_successes :: int
  consecutive_failures :: int
  request_count :: int
  blocked_at :: "int option"

definition AdaptiveRateLimiter_init :: AdaptiveRateLimiter where
  "AdaptiveRateLimiter_init =
     \<lparr> block_level = NONE, consecutive_successes = 0, consecutive_failures = 0,
       request_count = 0, blocked_at = None \<rparr>"

definition report_success :: "AdaptiveRateLimiter \<Rightarrow> py_error + AdaptiveRateLimiter" where
  "report_success s =
     (let s1 = s\<lparr> consecutive_successes := consecutive_successes s + 1,
                  consecutive_failures := 0 \<rparr>
      in if consecutive_successes s1 \<ge> 5 \<and> BlockLevel_value (block_level s1) > 0
         then bind_err (BlockLevel_of (BlockLevel_value (block_level s1) - 1))
                (\<lambda>l. Inr (s1\<lparr>block_level := l, consecutive_successes := 0\<rparr>))
         else Inr s1)"

definition report_failure :: "int option \<Rightarrow> AdaptiveRateLimiter \<Rightarrow> py_error + AdaptiveRateLimiter" where
  "report_failure status_code s =
     (let s1 = s\<lparr> consecutive_failures := consecutive_failures s + 1,
                  consecutive_successes := 0 \<rparr>;
          s2 = (if blocked_at s1 = None then s1\<lparr>blocked_at := Some (request_count s1)\<rparr> else s1);
          escalation = (if status_code \<in> set [Some 429, Some 403] then 2 else 1);
          new_level = min (BlockLevel_value (block_level s2) + escalation) (BlockLevel_value SEVERE)
      in bind_err (BlockLevel_of new_level) (\<lambda>l. Inr (s2\<lparr>block_level := l\<rparr>)))"

fun report_failures :: "int option list \<Rightarrow> AdaptiveRateLimiter \<Rightarrow> py_error + AdaptiveRateLimiter" where
  \<comment> \<open>one \<open>report_failure\<close> per status code, in order; an exception ends the run\<close>
  "report_failures [] s = Inr s"
| "report_failures (c # cs) s = bind_err (report_failure c s) (report_failures cs)"

section \<open>concurrent\_scraper.py: TokenBucketRateLimiter\<close>

text \<open>
  A Python \<open>float\<close> is an IEEE 754 double: a finite number, an infinity or a NaN.
  \<open>Finite x\<close> is the double whose value is \<open>x\<close> (the two zeros are not told apart); a Python
  \<open>int\<close> is unbounded. \<open>int(x)\<close> truncates a finite float towards zero, without rounding,
  and raises \<open>OverflowError\<close> for an infinity and \<open>ValueError\<close> for a NaN. \<open>float(k)\<close> is
  the double nearest to \<open>k\<close>, a tie going to the even significand of 53 bits, and raises
  \<open>OverflowError\<close> when that is beyond the largest double.
\<close>

datatype pyfloat = Finite real | PosInf | NegInf | NaN

definition py_int :: "pyfloat \<Rightarrow> py_error + int" where
  "py_int x =
     (case x of
        Finite r \<Rightarrow> Inr (if 0 \<le> r then \<lfloor>r\<rfloor> else \<lceil>r\<rceil>)
      | PosInf \<Rightarrow> Inl OverflowError
      | NegInf \<Rightarrow> Inl OverflowError
      | NaN \<Rightarrow> Inl ValueError)"

definition py_float :: "int \<Rightarrow> py_error + pyfloat" where
  "py_float k =
     (let a = \<bar>k\<bar> in
      if bitlen a \<le> 53 then Inr (Finite (real_of_int k))
      else
        (let shift = nat (bitlen a - 53);
             q = a div 2 ^ shift;
             r = a mod 2 ^ shift;
             half = 2 ^ (shift - 1);
             q' = (if r > half then q + 1
                   else if r = half \<and> odd q then q + 1
                   else q);
             m = q' * 2 ^ shift
         in if m \<ge> 2 ^ 1024 then Inl OverflowError
            else Inr (Finite (real_of_int (sgn k * m)))))"

text \<open>
  The constructor. \<open>capacity or int(rate)\<close> takes \<open>int(rate)\<close> when \<open>capacity\<close> is \<open>None\<close>
  or \<open>0\<close>, and does not evaluate it otherwise. \<open>now\<close> is the reading of \<open>time.monotonic()\<close>.
  The lock has no state of its own here.
\<close>

record TokenBucketRateLimiter =
  rate :: pyfloat
  capacity :: int
  tokens :: pyfloat
  last_update :: pyfloat

definition TokenBucketRateLimiter_init ::
    "pyfloat \<Rightarrow> int option \<Rightarrow> pyfloat \<Rightarrow> py_error + TokenBucketRateLimiter" where
  "TokenBucketRateLimiter_init r cap now =
     bind_err (case cap of
                 Some k \<Rightarrow> if k \<noteq> 0 then Inr k else py_int r
               | None \<Rightarrow> py_int r)
       (\<lambda>c. bind_err (py_float c)
          (\<lambda>t. Inr \<lparr> rate = r, capacity = c, tokens = t, last_update = now \<rparr>))"

section \<open>URLs\<close>

text \<open>
  \<open>urllib.parse.urlparse\<close> belongs to the standard library, not to this repository. The
  functions below take it as the parameter \<open>urlparse\<close> and read the two components the
  code reads, \<open>netloc\<close> and \<open>path\<close>.
\<close>

record ParseResult =
  netloc :: string
  path :: string

definition urlparse_plain :: "string \<Rightarrow> ParseResult" where
  \<comment> \<open>what \<open>urlparse\<close> returns on a URL of the plain form
      \<open>scheme://netloc/path?query#fragment\<close>; used for concrete inputs only\<close>
  "urlparse_plain url =
     (let rest = drop 3 (dropWhile (\<lambda>c. c \<noteq> CHR '':'') url);
          after = dropWhile (\<lambda>c. c \<notin> set ''/?#'') rest
      in \<lparr> netloc = takeWhile (\<lambda>c. c \<notin> set ''/?#'') rest,
           path = takeWhile (\<lambda>c. c \<notin> set ''?#'') after \<rparr>)"

section \<open>concurrent\_scraper.py: the semaphores of one fetch attempt\<close>






text \<open>
  Of \<open>ScrapeResult\<close> the fields \<open>status_code\<close> (which \<open>_scrape_single\<close> never sets),
  \<open>duration_ms\<close> and \<open>timestamp\<close> (clock readings) are left out.
\<close>

record ScrapeResult =
  url :: string
  success :: bool
  title :: string
  content :: string
  markdown :: string
  error :: "string option"
  result_retry_count :: int













section \<open>crawl4ai\_wrapper.py: ExperienceManager\<close>

subsection \<open>URL shapes\<close>

definition is_digit :: "char \<Rightarrow> bool" where
  \<comment> \<open>the regular expression class \<open>\d\<close> on the characters of this model\<close>
  "is_digit c = (c \<in> set ''0123456789'')"

text \<open>
  \<open>re.sub(c + r'\d+', c + '*', s)\<close> for a single character \<open>c\<close>: scanning from the left,
  every \<open>c\<close> that is followed by at least one digit is replaced, together with the
  longest run of digits after it, by \<open>c\<close> and a star.
\<close>

function re_sub_digits :: "char \<Rightarrow> string \<Rightarrow> string" where
  "re_sub_digits c [] = []"
| "re_sub_digits c (x # xs) =
     (if x = c \<and> xs \<noteq> [] \<and> is_digit (hd xs)
      then c # CHR ''*'' # re_sub_digits c (dropWhile is_digit xs)
      else x # re_sub_digits c xs)"
  by pat_completeness auto
termination
  by (relation "measure (\<lambda>(c, s). length s)") (auto simp: le_imp_less_Suc length_dropWhile_le)

definition url_to_pattern :: "(string \<Rightarrow> ParseResult) \<Rightarrow> string \<Rightarrow> string" where
  "url_to_pattern urlparse u =
     (let parsed = urlparse u;
          pattern = re_sub_digits (CHR ''/'') (path parsed);
          pattern = re_sub_digits (CHR ''='') pattern
      in pattern)"

text \<open>
  \<open>fnmatch.fnmatch(name, pat)\<close> of the standard library, on a POSIX system (where
  \<open>os.path.normcase\<close> changes nothing): \<open>*\<close> matches any run of characters, the slash
  included, and \<open>?\<close> any one character. Bracket expressions are not modelled: a \<open>[\<close> is
  compared literally, which is what the library does with a \<open>[\<close> that no \<open>]\<close> closes.
  Where a result depends on the value of \<open>fnmatch\<close> for a pattern that is not given, it is
  stated for patterns without \<open>[\<close>.
\<close>

fun fnmatch :: "string \<Rightarrow> string \<Rightarrow> bool" where
  "fnmatch name [] = (name = [])"
| "fnmatch [] (p # ps) = (p = CHR ''*'' \<and> fnmatch [] ps)"
| "fnmatch (c # cs) (p # ps) =
     (if p = CHR ''*'' then fnmatch (c # cs) ps \<or> fnmatch cs (p # ps)
      else (p = CHR ''?'' \<or> p = c) \<and> fnmatch cs ps)"

subsection \<open>The pattern store\<close>

text \<open>
  \<open>patterns\<close> is the JSON document: the key \<open>_meta\<close> and one key per domain, each domain
  holding \<open>url_patterns\<close>, a dict from URL shape to the learned record. \<open>patterns_file\<close> is
  the content of the file on disk.
\<close>

record ExperienceManager =
  patterns :: pydict
  patterns_file :: "pydict option"

definition find_pattern ::
    "(string \<Rightarrow> ParseResult) \<Rightarrow> ExperienceManager \<Rightarrow> string \<Rightarrow> py_error + json option" where
  "find_pattern urlparse em u =
     (let parsed = urlparse u;
          domain = netloc parsed;
          url_pattern = url_to_pattern urlparse u
      in if \<not> has_key (patterns em) domain then Inr None
         else
           bind_err (dict_item (patterns em) domain) (\<lambda>entry.
           bind_err (as_dict entry) (\<lambda>e.
           bind_err (as_dict (dict_get e ''url_patterns'' (JObj []))) (\<lambda>domain_patterns.
             if has_key domain_patterns url_pattern
             then bind_err (dict_item domain_patterns url_pattern) (\<lambda>cfg. Inr (Some cfg))
             else Inr (map_option snd
                         (find (\<lambda>(pattern, cfg). fnmatch url_pattern pattern) domain_patterns))))))"

definition py_add1 :: "json \<Rightarrow> py_error + json" where
  \<comment> \<open>\<open>v + 1\<close>\<close>
  "py_add1 v =
     (case v of
        JInt n \<Rightarrow> Inr (JInt (n + 1))
      | JBool b \<Rightarrow> Inr (JInt ((if b then 1 else 0) + 1))
      | _ \<Rightarrow> Inl TypeError)"

definition py_len :: "json \<Rightarrow> py_error + int" where
  \<comment> \<open>\<open>len(v)\<close>\<close>
  "py_len v =
     (case v of
        JObj d \<Rightarrow> Inr (int (length d))
      | JArr xs \<Rightarrow> Inr (int (length xs))
      | JStr x \<Rightarrow> Inr (int (length x))
      | _ \<Rightarrow> Inl TypeError)"

definition py_summand :: "json \<Rightarrow> py_error + int" where
  \<comment> \<open>a value added to the running total of \<open>sum(...)\<close>, which starts at \<open>0\<close>\<close>
  "py_summand v =
     (case v of
        JInt n \<Rightarrow> Inr n
      | JBool b \<Rightarrow> Inr (if b then 1 else 0)
      | _ \<Rightarrow> Inl TypeError)"

fun sum_err :: "(py_error + int) list \<Rightarrow> py_error + int" where
  \<comment> \<open>\<open>sum\<close> over a generator whose items may raise: the first exception ends it\<close>
  "sum_err [] = Inr 0"
| "sum_err (x # xs) = bind_err x (\<lambda>a. bind_err (sum_err xs) (\<lambda>b. Inr (a + b)))"

definition domain_entries :: "pydict \<Rightarrow> json list" where
  \<comment> \<open>\<open>d for k, d in self.patterns.items() if k != "_meta"\<close>\<close>
  "domain_entries ps = map snd (filter (\<lambda>(k, d). k \<noteq> ''_meta'') ps)"

definition total_patterns :: "pydict \<Rightarrow> py_error + int" where
  "total_patterns ps =
     sum_err (map (\<lambda>d. bind_err (as_dict d)
                          (\<lambda>dd. py_len (dict_get dd ''url_patterns'' (JObj []))))
                (domain_entries ps))"

definition total_successes :: "pydict \<Rightarrow> py_error + int" where
  "total_successes ps =
     sum_err (map (\<lambda>d. bind_err (as_dict d) (\<lambda>dd.
                        bind_err (as_dict (dict_get dd ''url_patterns'' (JObj []))) (\<lambda>ups.
                          sum_err (map (\<lambda>p. bind_err (as_dict p)
                                               (\<lambda>pp. py_summand (dict_get pp ''success_count'' (JInt 0))))
                                     (map snd ups)))))
                (domain_entries ps))"

definition set_meta :: "string \<Rightarrow> json \<Rightarrow> pydict \<Rightarrow> py_error + pydict" where
  \<comment> \<open>\<open>self.patterns["_meta"][k] = v\<close>\<close>
  "set_meta k v ps =
     bind_err (dict_item ps ''_meta'') (\<lambda>meta.
     bind_err (as_dict meta) (\<lambda>md.
       Inr (AList.update ''_meta'' (JObj (AList.update k v md)) ps)))"

definition save_patterns :: "string \<Rightarrow> ExperienceManager \<Rightarrow> py_error + ExperienceManager" where
  \<comment> \<open>\<open>_save_patterns\<close>: stamp \<open>_meta\<close> and rewrite the whole file\<close>
  "save_patterns now em =
     bind_err (set_meta ''last_updated'' (JStr now) (patterns em)) (\<lambda>ps.
       Inr (em\<lparr>patterns := ps, patterns_file := Some ps\<rparr>))"

text \<open>
  \<open>save_pattern(url, pattern_data)\<close>. The three readings of the clock are parameters:
  \<open>now_success\<close> for \<open>last_success\<close>, \<open>now_created\<close> for the default of \<open>created_at\<close>,
  \<open>now_saved\<close> for \<open>last_updated\<close>. An exception is the result \<open>Inl\<close>; the manager that
  the exception leaves behind is not returned.
\<close>

definition merged_record :: "string \<Rightarrow> string \<Rightarrow> pydict \<Rightarrow> pydict \<Rightarrow> json \<Rightarrow> pydict" where
  \<comment> \<open>the dict literal \<open>merged\<close>, given \<open>existing.get("success_count", 0) + 1\<close>\<close>
  "merged_record now_success now_created pattern_data existing count =
     [ (''description'', dict_get pattern_data ''description'' (dict_get existing ''description'' (JStr []))),
       (''selectors'', dict_get pattern_data ''selectors'' (dict_get existing ''selectors'' (JObj []))),
       (''pagination'', dict_get pattern_data ''pagination'' (dict_get existing ''pagination'' (JObj []))),
       (''anti_block'', dict_get pattern_data ''anti_block'' (dict_get existing ''anti_block'' (JObj []))),
       (''success_count'', count),
       (''fail_count'', dict_get existing ''fail_count'' (JInt 0)),
       (''last_success'', JStr now_success),
       (''last_fail'', dict_get existing ''last_fail'' JNull),
       (''created_at'', dict_get existing ''created_at'' (JStr now_created)),
       (''notes'', dict_get pattern_data ''notes'' (dict_get existing ''notes'' (JStr []))),
       (''status'', JStr ''active'') ]"

definition save_pattern ::
    "(string \<Rightarrow> ParseResult) \<Rightarrow> string \<Rightarrow> string \<Rightarrow> string \<Rightarrow> string \<Rightarrow> pydict
       \<Rightarrow> ExperienceManager \<Rightarrow> py_error + ExperienceManager" where
  "save_pattern urlparse now_success now_created now_saved u pattern_data em =
     (let parsed = urlparse u;
          domain = netloc parsed;
          url_pattern = url_to_pattern urlparse u;
          p1 = (if \<not> has_key (patterns em) domain
                then AList.update domain (JObj [(''url_patterns'', JObj [])]) (patterns em)
                else patterns em)
      in bind_err (dict_item p1 domain) (\<lambda>entry.
         bind_err (as_dict entry) (\<lambda>e0.
           let e1 = (if \<not> has_key e0 ''url_patterns''
                     then AList.update ''url_patterns'' (JObj []) e0
                     else e0)
           in bind_err (dict_item e1 ''url_patterns'') (\<lambda>stored.
              bind_err (as_dict stored) (\<lambda>ups.
              bind_err (as_dict (dict_get ups url_pattern (JObj []))) (\<lambda>existing.
              bind_err (py_add1 (dict_get existing ''success_count'' (JInt 0))) (\<lambda>count.
                let merged = merged_record now_success now_created pattern_data existing count;
                    p2 = AList.update domain
                           (JObj (AList.update ''url_patterns''
                                    (JObj (AList.update url_pattern (JObj merged) ups)) e1))
                           p1
                in bind_err (total_patterns p2) (\<lambda>n_patterns.
                   bind_err (set_meta ''total_patterns'' (JInt n_patterns) p2) (\<lambda>p3.
                   bind_err (total_successes p3) (\<lambda>n_successes.
                   bind_err (set_meta ''total_successes'' (JInt n_successes) p3) (\<lambda>p4.
                     save_patterns now_saved (em\<lparr>patterns := p4\<rparr>))))))))))))"

definition stored_record :: "pydict \<Rightarrow> string \<Rightarrow> string \<Rightarrow> json option" where
  \<comment> \<open>the record the store holds for a domain under a URL shape, if any\<close>
  "stored_record ps domain shape =
     (case map_of ps domain of
        Some (JObj e) \<Rightarrow>
          (case map_of e ''url_patterns'' of
             Some (JObj ups) \<Rightarrow> map_of ups shape
           | _ \<Rightarrow> None)
      | _ \<Rightarrow> None)"

definition record_status :: "json \<Rightarrow> json option" where
  "record_status r = (case r of JObj d \<Rightarrow> map_of d ''status'' | _ \<Rightarrow> None)"

definition domain_shapes :: "pydict \<Rightarrow> string \<Rightarrow> string list" where
  \<comment> \<open>the URL shapes stored for a domain, in the order of the dict\<close>
  "domain_shapes ps d =
     (case map_of ps d of
        Some (JObj e) \<Rightarrow>
          (case map_of e ''url_patterns'' of
             Some (JObj ups) \<Rightarrow> map fst ups
           | _ \<Rightarrow> [])
      | _ \<Rightarrow> [])"

text \<open>
  The shape of the store that the code itself writes: \<open>_meta\<close> is present, every top-level
  value is a dict, \<open>url_patterns\<close> (where present) is a dict of dicts, and a
  \<open>success_count\<close> (where present) is a number.
\<close>

definition count_ok :: "json \<Rightarrow> bool" where
  "count_ok r =
     (case r of
        JObj rd \<Rightarrow>
          (case map_of rd ''success_count'' of
             None \<Rightarrow> True
           | Some (JInt n) \<Rightarrow> True
           | Some (JBool b) \<Rightarrow> True
           | Some _ \<Rightarrow> False)
      | _ \<Rightarrow> False)"

definition entry_ok :: "json \<Rightarrow> bool" where
  "entry_ok v =
     (case v of
        JObj e \<Rightarrow>
          (case map_of e ''url_patterns'' of
             None \<Rightarrow> True
           | Some (JObj ups) \<Rightarrow> list_all count_ok (map snd ups)
           | Some _ \<Rightarrow> False)
      | _ \<Rightarrow> False)"

definition store_ok :: "pydict \<Rightarrow> bool" where
  "store_ok ps = (has_key ps ''_meta'' \<and> list_all entry_ok (map snd ps))"

section \<open>Concrete inputs\<close>

definition example_url :: string where
  "example_url = ''https://example.com/a''"

definition example_data :: pydict where
  "example_data = [(''title'', JStr ''A''), (''content'', JStr ''text'')]"

definition example_heap :: heap where
  \<comment> \<open>two dict objects with the same content, at the addresses 0 and 1\<close>
  "example_heap = \<lparr> cells = (\<lambda>a. if a < 2 then example_data else []), next_ref = 2 \<rparr>"

definition example_manager :: ProgressManager where
  "example_manager = snd (ProgressManager_init ''task'' None True 1 None ''09:00'' example_heap)"

definition resumed_manager :: ProgressManager where
  "resumed_manager =
     snd (ProgressManager_init ''task'' None True 1
            (Some ((ProgressState_new ''task'' [] ''09:00'')
                     \<lparr> total_urls := 4, completed_urls := 2,
                       urls_to_scrape := [''A'', ''B'', ''C'', ''D''],
                       completed_url_list := [''A'', ''B''] \<rparr>, []))
            ''10:00'' example_heap)"


definition example_record :: json where
  "example_record =
     JObj [ (''description'', JStr ''article pages''),
            (''selectors'', JObj [(''title'', JStr ''h1'')]),
            (''pagination'', JObj []),
            (''anti_block'', JObj []),
            (''success_count'', JInt 3),
            (''fail_count'', JInt 1),
            (''last_success'', JStr ''2024-01-01T09:00:00''),
            (''last_fail'', JNull),
            (''created_at'', JStr ''2024-01-01T08:00:00''),
            (''notes'', JStr []),
            (''status'', JStr ''retired'') ]"

definition example_store :: ExperienceManager where
  "example_store =
     \<lparr> patterns =
         [ (''_meta'', JObj [(''version'', JStr ''1.0.0''), (''total_patterns'', JInt 1),
                            (''total_successes'', JInt 3)]),
           (''example.com'', JObj [(''url_patterns'', JObj [(''/articles/*'', example_record)])]) ],
       patterns_file = None \<rparr>"

section \<open>Facts about the Python values\<close>

lemma bind_err_Inr [simp]: "bind_err (Inr x) f = f x"
  by (simp add: bind_err_def)

lemma bind_err_Inl [simp]: "bind_err (Inl e) f = Inl e"
  by (simp add: bind_err_def)

lemma bind_err_eq_Inr:
  "bind_err m f = Inr y \<longleftrightarrow> (\<exists>x. m = Inr x \<and> f x = Inr y)"
  by (cases m) simp_all

lemma as_dict_eq_Inr: "as_dict v = Inr d \<longleftrightarrow> v = JObj d"
  by (cases v) (simp_all add: as_dict_def)

lemma dict_item_eq_Inr: "dict_item d k = Inr v \<longleftrightarrow> map_of d k = Some v"
  by (simp add: dict_item_def split: option.splits)

section \<open>Results on progress\_manager.py\<close>

lemma maybe_auto_save_frame:
  "completed_set (maybe_auto_save now h pm) = completed_set pm"
  "completed_url_list (state (maybe_auto_save now h pm)) = completed_url_list (state pm)"
  "failed_url_list (state (maybe_auto_save now h pm)) = failed_url_list (state pm)"
  "completed_urls (state (maybe_auto_save now h pm)) = completed_urls (state pm)"
  "failed_urls (state (maybe_auto_save now h pm)) = failed_urls (state pm)"
  "scraped_data (state (maybe_auto_save now h pm)) = scraped_data (state pm)"
  "urls_to_scrape (state (maybe_auto_save now h pm)) = urls_to_scrape (state pm)"
  by (simp_all add: maybe_auto_save_def save_def Let_def)

lemma mark_completed_completed_set:
  "completed_set (snd (mark_completed u d s t h pm)) = insert u (completed_set pm)"
  by (auto simp: mark_completed_def Let_def maybe_auto_save_frame split: option.splits)

lemma mark_completed_list:
  "completed_url_list (state (snd (mark_completed u d s t h pm))) =
     (if u \<in> completed_set pm then completed_url_list (state pm)
      else completed_url_list (state pm) @ [u])"
  by (simp add: mark_completed_def Let_def maybe_auto_save_frame split: option.splits)

lemma mark_completed_count:
  "completed_urls (state (snd (mark_completed u d s t h pm))) =
     (if u \<in> completed_set pm then completed_urls (state pm)
      else completed_urls (state pm) + 1)"
  by (simp add: mark_completed_def Let_def maybe_auto_save_frame split: option.splits)

lemma mark_completed_failed_list:
  "failed_url_list (state (snd (mark_completed u d s t h pm))) = failed_url_list (state pm)"
  by (simp add: mark_completed_def Let_def maybe_auto_save_frame split: option.splits)

lemma mark_completed_data:
  "scraped_data (state (snd (mark_completed u d s t h pm))) =
     scraped_data (state pm) @ (if dict_truthy h d then [the d] else [])"
  by (simp add: mark_completed_def Let_def maybe_auto_save_frame dict_truthy_def split: option.splits)

lemma mark_completed_cells:
  "cells (fst (mark_completed u d s t h pm)) =
     (if dict_truthy h d
      then (cells h)(the d := AList.update ''_url'' (JStr u)
                                (AList.update ''_scraped_at'' (JStr s) (cells h (the d))))
      else cells h)"
  by (simp add: mark_completed_def Let_def dict_truthy_def split: option.splits)

lemma mark_failed_failed_list:
  "failed_url_list (state (mark_failed u e t h pm)) =
     (if u \<in> set (failed_url_list (state pm)) then failed_url_list (state pm)
      else failed_url_list (state pm) @ [u])"
  by (simp add: mark_failed_def Let_def maybe_auto_save_frame)

lemma mark_failed_completed:
  "completed_url_list (state (mark_failed u e t h pm)) = completed_url_list (state pm)"
  "completed_set (mark_failed u e t h pm) = completed_set pm"
  by (simp_all add: mark_failed_def Let_def maybe_auto_save_frame)

lemma count_list_distinct_mem:
  "distinct xs \<Longrightarrow> x \<in> set xs \<Longrightarrow> count_list xs x = 1"
  by (induction xs) (auto simp: count_list_0_iff)

lemma stamped_url:
  "map_of (AList.update ''_url'' (JStr u) d) ''_url'' = Some (JStr u)"
  by (simp add: update_conv')

text \<open>
  Claim C1, as amended. In every state, after \<open>mark_completed(u, d1)\<close> a second
  \<open>mark_completed(u, d2)\<close> changes neither \<open>completed_urls\<close> nor \<open>completed_url_list\<close> nor
  the completed set; when the completed set mirrored a duplicate-free
  \<open>completed_url_list\<close> before the two calls, the list holds \<open>u\<close> exactly once. The result
  list is not deduplicated: each of the two calls whose data is a non-empty dict appends
  that dict object to \<open>scraped_data\<close>, a call with \<open>None\<close> or an empty dict appends nothing,
  and after the two calls every dict appended by them carries the URL \<open>u\<close>.
\<close>
theorem mark_completed_twice:
  "let (h1, pm1) = mark_completed u d1 s1 t1 h pm;
       (h2, pm2) = mark_completed u d2 s2 t2 h1 pm1 in
     completed_urls (state pm2) = completed_urls (state pm1) \<and>
     completed_url_list (state pm2) = completed_url_list (state pm1) \<and>
     completed_set pm2 = completed_set pm1 \<and>
     (completed_set pm = set (completed_url_list (state pm)) \<and>
      distinct (completed_url_list (state pm))
        \<longrightarrow> count_list (completed_url_list (state pm2)) u = 1) \<and>
     scraped_data (state pm1) =
       scraped_data (state pm) @ (if dict_truthy h d1 then [the d1] else []) \<and>
     scraped_data (state pm2) =
       scraped_data (state pm1) @ (if dict_truthy h1 d2 then [the d2] else []) \<and>
     (dict_truthy h d1 \<longrightarrow> map_of (cells h2 (the d1)) ''_url'' = Some (JStr u)) \<and>
     (dict_truthy h1 d2 \<longrightarrow> map_of (cells h2 (the d2)) ''_url'' = Some (JStr u))"
proof -
  define w1 where "w1 = mark_completed u d1 s1 t1 h pm"
  define w2 where "w2 = mark_completed u d2 s2 t2 (fst w1) (snd w1)"
  have in1: "u \<in> completed_set (snd w1)"
    by (simp add: w1_def mark_completed_completed_set)
  have urls: "completed_urls (state (snd w2)) = completed_urls (state (snd w1))"
    using in1 by (simp add: w2_def mark_completed_count)
  have list: "completed_url_list (state (snd w2)) = completed_url_list (state (snd w1))"
    using in1 by (simp add: w2_def mark_completed_list)
  have cset: "completed_set (snd w2) = completed_set (snd w1)"
    using in1 by (auto simp: w2_def mark_completed_completed_set)
  have once: "count_list (completed_url_list (state (snd w2))) u = 1"
    if "completed_set pm = set (completed_url_list (state pm))"
      and "distinct (completed_url_list (state pm))"
    using that
    by (auto simp: list w1_def mark_completed_list count_list_distinct_mem count_list_0_iff)
  have data1: "scraped_data (state (snd w1)) =
                 scraped_data (state pm) @ (if dict_truthy h d1 then [the d1] else [])"
    by (simp add: w1_def mark_completed_data)
  have data2: "scraped_data (state (snd w2)) =
                 scraped_data (state (snd w1)) @ (if dict_truthy (fst w1) d2 then [the d2] else [])"
    by (simp add: w2_def mark_completed_data)
  have url2: "map_of (cells (fst w2) (the d2)) ''_url'' = Some (JStr u)"
    if "dict_truthy (fst w1) d2"
    using that by (simp add: w2_def mark_completed_cells stamped_url)
  have url1: "map_of (cells (fst w2) (the d1)) ''_url'' = Some (JStr u)"
    if "dict_truthy h d1"
    using that by (simp add: w2_def w1_def mark_completed_cells stamped_url)
  show ?thesis
    using urls list cset once data1 data2 url1 url2
    by (simp add: Let_def split_beta w1_def [symmetric] w2_def [symmetric])
qed

lemma example_manager_fields:
  "completed_set example_manager = {}"
  "completed_url_list (state example_manager) = []"
  "failed_url_list (state example_manager) = []"
  "completed_urls (state example_manager) = 0"
  "scraped_data (state example_manager) = []"
  by (simp_all add: example_manager_def ProgressManager_init_def ProgressState_new_def)

lemma example_heap_truthy:
  "dict_truthy example_heap (Some 0)" "dict_truthy example_heap (Some (Suc 0))"
  "\<not> dict_truthy hp None"
  by (simp_all add: dict_truthy_def example_heap_def example_data_def)

text \<open>
  The theorem of C1 on a new manager: a completion with the dict at address 0 followed
  by one with the dict at address 1, and a completion with the dict at address 0 followed
  by one without data.
\<close>
theorem mark_completed_twice_witness:
  "(let (h1, pm1) = mark_completed example_url (Some 0) ''09:01'' ''09:02'' example_heap example_manager;
        (h2, pm2) = mark_completed example_url (Some 1) ''09:03'' ''09:04'' h1 pm1 in
      completed_urls (state pm2) = 1 \<and>
      completed_url_list (state pm2) = [example_url] \<and>
      count_list (completed_url_list (state pm2)) example_url = 1 \<and>
      scraped_data (state pm2) = [0, 1] \<and>
      map_of (cells h2 0) ''_url'' = Some (JStr example_url) \<and>
      map_of (cells h2 1) ''_url'' = Some (JStr example_url)) \<and>
   (let (h1, pm1) = mark_completed example_url (Some 0) ''09:01'' ''09:02'' example_heap example_manager;
        (h2, pm2) = mark_completed example_url None ''09:03'' ''09:04'' h1 pm1 in
      completed_urls (state pm2) = 1 \<and>
      completed_url_list (state pm2) = [example_url] \<and>
      scraped_data (state pm2) = [0])"
  using mark_completed_twice [of example_url "Some 0" "''09:01''" "''09:02''" example_heap
          example_manager "Some 1" "''09:03''" "''09:04''"]
        mark_completed_twice [of example_url "Some 0" "''09:01''" "''09:02''" example_heap
          example_manager None "''09:03''" "''09:04''"]
  by (simp add: Let_def split_beta mark_completed_list mark_completed_count
        mark_completed_data mark_completed_cells example_manager_fields example_heap_truthy
        dict_truthy_def example_heap_def example_data_def)

text \<open>
  Claim C1 as stated fails: two completions of the same URL, each with a dict of its own,
  leave two entries for it in \<open>scraped_data\<close>, and the second call did change the list.
\<close>
theorem mark_completed_twice_appends_data_again:
  "let (h1, pm1) = mark_completed example_url (Some 0) ''09:01'' ''09:02'' example_heap example_manager;
       (h2, pm2) = mark_completed example_url (Some 1) ''09:03'' ''09:04'' h1 pm1 in
     scraped_data (state pm1) = [0] \<and>
     scraped_data (state pm2) = [0, 1] \<and>
     entries_for example_url h2 (scraped_data (state pm2)) = [0, 1] \<and>
     scraped_data (state pm2) \<noteq> scraped_data (state pm1)"
  by (simp add: Let_def split_beta mark_completed_data mark_completed_cells entries_for_def
        dict_truthy_def update_conv' example_manager_fields example_heap_def example_data_def)

text \<open>
  The same dict handed in twice is in the list twice, and the second call stamps the
  entry stored by the first one again.
\<close>
lemma mark_completed_same_dict_twice:
  "let (h1, pm1) = mark_completed example_url (Some 0) ''09:01'' ''09:02'' example_heap example_manager;
       (h2, pm2) = mark_completed example_url (Some 0) ''09:03'' ''09:04'' h1 pm1 in
     scraped_data (state pm2) = [0, 0] \<and>
     map_of (cells h1 0) ''_scraped_at'' = Some (JStr ''09:01'') \<and>
     map_of (cells h2 0) ''_scraped_at'' = Some (JStr ''09:03'')"
  by (simp add: Let_def split_beta mark_completed_data mark_completed_cells
        dict_truthy_def update_conv' example_manager_fields example_heap_def example_data_def)

lemma sync_init:
  "completed_set (snd (ProgressManager_init tid start a i stored now h)) =
     set (completed_url_list (state (snd (ProgressManager_init tid start a i stored now h))))"
  by (simp add: ProgressManager_init_def Let_def split_beta split: option.splits)

lemma sync_mark_completed:
  "completed_set pm = set (completed_url_list (state pm)) \<Longrightarrow>
   completed_set (snd (mark_completed u d s t h pm)) =
     set (completed_url_list (state (snd (mark_completed u d s t h pm))))"
  by (auto simp: mark_completed_completed_set mark_completed_list)

lemma sync_mark_failed:
  "completed_set pm = set (completed_url_list (state pm)) \<Longrightarrow>
   completed_set (mark_failed u e t h pm) = set (completed_url_list (state (mark_failed u e t h pm)))"
  by (simp add: mark_failed_completed)

lemma sync_set_urls:
  "completed_set pm = set (completed_url_list (state pm)) \<Longrightarrow>
   completed_set (set_urls urls t h pm) = set (completed_url_list (state (set_urls urls t h pm)))"
  by (simp add: set_urls_def maybe_auto_save_frame)

text \<open>
  Claim C5. The completed set mirrors \<open>completed_url_list\<close> from \<open>__init__\<close> on (the lemmas
  \<open>sync_init\<close> to \<open>sync_set_urls\<close>); then \<open>get_remaining_urls\<close> is the worklist, in its
  order, without the URLs of \<open>completed_url_list\<close> and without those of \<open>failed_url_list\<close>.
\<close>
theorem get_remaining_urls_excludes_completed_and_failed:
  assumes "completed_set pm = set (completed_url_list (state pm))"
  shows "get_remaining_urls pm =
           filter (\<lambda>url. url \<notin> set (completed_url_list (state pm)) \<union> set (failed_url_list (state pm)))
             (urls_to_scrape (state pm))"
  using assms by (simp add: get_remaining_urls_def)

text \<open>
  The example of C5: a manager resumed from a stored state with worklist \<open>[A, B, C, D]\<close>
  and \<open>completed_url_list = [A, B]\<close> has \<open>[C, D]\<close> remaining.
\<close>
theorem get_remaining_urls_resume_example:
  "urls_to_scrape (state resumed_manager) = [''A'', ''B'', ''C'', ''D''] \<and>
   completed_url_list (state resumed_manager) = [''A'', ''B''] \<and>
   failed_url_list (state resumed_manager) = [] \<and>
   get_remaining_urls resumed_manager = [''C'', ''D'']"
  using get_remaining_urls_excludes_completed_and_failed [of resumed_manager]
  by (simp add: resumed_manager_def ProgressManager_init_def ProgressState_new_def Let_def)

lemma completed_in_Cons: "completed_in (c # cs) = completed_in [c] \<union> completed_in cs"
  by (cases c) auto

lemma failed_in_Cons: "failed_in (c # cs) = failed_in [c] \<union> failed_in cs"
  by (cases c) auto

lemma apply_call_failed:
  "set (failed_url_list (state (snd (apply_call c w)))) =
     set (failed_url_list (state (snd w))) \<union> failed_in [c]"
  by (cases c; cases w) (auto simp: mark_completed_failed_list mark_failed_failed_list)

lemma apply_call_completed:
  "set (completed_url_list (state (snd (apply_call c w)))) \<subseteq>
     set (completed_url_list (state (snd w))) \<union> completed_in [c]"
  by (cases c; cases w) (auto simp: mark_completed_list mark_failed_completed)

lemma apply_call_sync:
  assumes "completed_set (snd w) = set (completed_url_list (state (snd w)))"
  shows "completed_set (snd (apply_call c w)) =
           set (completed_url_list (state (snd (apply_call c w)))) \<and>
         set (completed_url_list (state (snd (apply_call c w)))) =
           set (completed_url_list (state (snd w))) \<union> completed_in [c]"
  using assms
  by (cases c; cases w)
     (auto simp: mark_completed_list mark_completed_completed_set mark_failed_completed)

lemma run_calls_failed:
  "set (failed_url_list (state (snd (run_calls cs w)))) =
     set (failed_url_list (state (snd w))) \<union> failed_in cs"
proof (induction cs arbitrary: w)
  case Nil
  show ?case by simp
next
  case (Cons c cs)
  have "set (failed_url_list (state (snd (run_calls cs (apply_call c w))))) =
          set (failed_url_list (state (snd (apply_call c w)))) \<union> failed_in cs"
    by (rule Cons.IH)
  also have "\<dots> = (set (failed_url_list (state (snd w))) \<union> failed_in [c]) \<union> failed_in cs"
    by (simp only: apply_call_failed)
  finally show ?case
    using failed_in_Cons [of c cs] by auto
qed

lemma run_calls_completed:
  "set (completed_url_list (state (snd (run_calls cs w)))) \<subseteq>
     set (completed_url_list (state (snd w))) \<union> completed_in cs"
proof (induction cs arbitrary: w)
  case Nil
  show ?case by simp
next
  case (Cons c cs)
  have "set (completed_url_list (state (snd (run_calls cs (apply_call c w))))) \<subseteq>
          set (completed_url_list (state (snd (apply_call c w)))) \<union> completed_in cs"
    by (rule Cons.IH)
  also have "\<dots> \<subseteq> (set (completed_url_list (state (snd w))) \<union> completed_in [c]) \<union> completed_in cs"
    using apply_call_completed [of c w] by blast
  finally show ?case
    using completed_in_Cons [of c cs] by auto
qed

lemma run_calls_completed_sync:
  assumes "completed_set (snd w) = set (completed_url_list (state (snd w)))"
  shows "set (completed_url_list (state (snd (run_calls cs w)))) =
           set (completed_url_list (state (snd w))) \<union> completed_in cs"
  using assms
proof (induction cs arbitrary: w)
  case Nil
  show ?case by simp
next
  case (Cons c cs)
  note step = apply_call_sync [OF Cons.prems, of c]
  have "set (completed_url_list (state (snd (run_calls cs (apply_call c w))))) =
          set (completed_url_list (state (snd (apply_call c w)))) \<union> completed_in cs"
    using step by (intro Cons.IH) simp
  also have "\<dots> = (set (completed_url_list (state (snd w))) \<union> completed_in [c]) \<union> completed_in cs"
    using step by simp
  finally show ?case
    using completed_in_Cons [of c cs] by auto
qed

text \<open>
  Claim C3, as amended. \<open>mark_completed\<close> never changes \<open>failed_url_list\<close> and
  \<open>mark_failed\<close> never changes \<open>completed_url_list\<close>. After a sequence of calls the two
  lists are disjoint whenever no URL that is completed (in the list before, or passed to
  \<open>mark_completed\<close>) is also failed (in the list before, or passed to \<open>mark_failed\<close>);
  for a manager whose completed set mirrors \<open>completed_url_list\<close> that condition is also
  necessary. In particular, on such a manager a URL that is reported failed and then
  completed is in both lists.
\<close>
theorem completed_and_failed_lists:
  "failed_url_list (state (snd (mark_completed u d s t h pm))) = failed_url_list (state pm) \<and>
   completed_url_list (state (mark_failed u e t h pm)) = completed_url_list (state pm) \<and>
   ((set (completed_url_list (state pm)) \<union> completed_in cs) \<inter>
    (set (failed_url_list (state pm)) \<union> failed_in cs) = {}
      \<longrightarrow> set (completed_url_list (state (snd (run_calls cs (h, pm))))) \<inter>
          set (failed_url_list (state (snd (run_calls cs (h, pm))))) = {}) \<and>
   (completed_set pm = set (completed_url_list (state pm))
      \<longrightarrow> (set (completed_url_list (state (snd (run_calls cs (h, pm))))) \<inter>
           set (failed_url_list (state (snd (run_calls cs (h, pm))))) = {}
           \<longleftrightarrow> (set (completed_url_list (state pm)) \<union> completed_in cs) \<inter>
               (set (failed_url_list (state pm)) \<union> failed_in cs) = {}) \<and>
          u \<in> set (completed_url_list
                     (state (snd (run_calls [MarkFailed u e t, MarkCompleted u d s t'] (h, pm))))) \<and>
          u \<in> set (failed_url_list
                     (state (snd (run_calls [MarkFailed u e t, MarkCompleted u d s t'] (h, pm))))))"
proof (intro conjI impI)
  show "failed_url_list (state (snd (mark_completed u d s t h pm))) = failed_url_list (state pm)"
    by (rule mark_completed_failed_list)
  show "completed_url_list (state (mark_failed u e t h pm)) = completed_url_list (state pm)"
    by (rule mark_failed_completed)
next
  assume "(set (completed_url_list (state pm)) \<union> completed_in cs) \<inter>
          (set (failed_url_list (state pm)) \<union> failed_in cs) = {}"
  then show "set (completed_url_list (state (snd (run_calls cs (h, pm))))) \<inter>
             set (failed_url_list (state (snd (run_calls cs (h, pm))))) = {}"
    using run_calls_completed [of cs "(h, pm)"] run_calls_failed [of cs "(h, pm)"] by auto
next
  assume sync: "completed_set pm = set (completed_url_list (state pm))"
  then have c: "set (completed_url_list (state (snd (run_calls cs (h, pm))))) =
                  set (completed_url_list (state pm)) \<union> completed_in cs"
    using run_calls_completed_sync [of "(h, pm)" cs] by simp
  have f: "set (failed_url_list (state (snd (run_calls cs (h, pm))))) =
             set (failed_url_list (state pm)) \<union> failed_in cs"
    using run_calls_failed [of cs "(h, pm)"] by simp
  show "set (completed_url_list (state (snd (run_calls cs (h, pm))))) \<inter>
        set (failed_url_list (state (snd (run_calls cs (h, pm))))) = {}
        \<longleftrightarrow> (set (completed_url_list (state pm)) \<union> completed_in cs) \<inter>
            (set (failed_url_list (state pm)) \<union> failed_in cs) = {}"
    by (simp only: c f)
  show "u \<in> set (completed_url_list
                   (state (snd (run_calls [MarkFailed u e t, MarkCompleted u d s t'] (h, pm)))))"
    using sync run_calls_completed_sync [of "(h, pm)" "[MarkFailed u e t, MarkCompleted u d s t']"]
    by simp
  show "u \<in> set (failed_url_list
                   (state (snd (run_calls [MarkFailed u e t, MarkCompleted u d s t'] (h, pm)))))"
    using run_calls_failed [of "[MarkFailed u e t, MarkCompleted u d s t']" "(h, pm)"]
    by simp
qed

text \<open>
  The theorem of C3 on a new manager: a sequence that fails \<open>B\<close> twice and completes \<open>A\<close>
  keeps the lists disjoint, and a URL failed and then completed is in both.
\<close>
theorem completed_and_failed_lists_witness:
  "set (completed_url_list (state (snd (run_calls
      [MarkFailed ''B'' ''timeout'' ''09:01'', MarkCompleted ''A'' None ''09:02'' ''09:03'',
       MarkFailed ''B'' ''timeout'' ''09:04''] (example_heap, example_manager))))) \<inter>
   set (failed_url_list (state (snd (run_calls
      [MarkFailed ''B'' ''timeout'' ''09:01'', MarkCompleted ''A'' None ''09:02'' ''09:03'',
       MarkFailed ''B'' ''timeout'' ''09:04''] (example_heap, example_manager))))) = {} \<and>
   example_url \<in> set (completed_url_list (state (snd (run_calls
      [MarkFailed example_url ''timeout'' ''09:01'', MarkCompleted example_url (Some 0) ''09:02'' ''09:03'']
      (example_heap, example_manager))))) \<and>
   example_url \<in> set (failed_url_list (state (snd (run_calls
      [MarkFailed example_url ''timeout'' ''09:01'', MarkCompleted example_url (Some 0) ''09:02'' ''09:03'']
      (example_heap, example_manager)))))"
  using completed_and_failed_lists [where pm = example_manager and h = example_heap and cs =
      "[MarkFailed ''B'' ''timeout'' ''09:01'', MarkCompleted ''A'' None ''09:02'' ''09:03'',
        MarkFailed ''B'' ''timeout'' ''09:04'']"]
    completed_and_failed_lists [where pm = example_manager and h = example_heap and cs = "[]"
      and u = example_url and e = "''timeout''" and t = "''09:01''" and d = "Some 0"
      and s = "''09:02''" and t' = "''09:03''"]
  by (simp add: example_manager_fields)

text \<open>
  Claim C3 as stated fails: a URL that is reported failed and then completed (a later
  retry that succeeds) is in both lists.
\<close>
theorem failed_then_completed_in_both_lists:
  "let (h', pm') = run_calls [MarkFailed example_url ''timeout'' ''09:01'',
                              MarkCompleted example_url (Some 0) ''09:02'' ''09:03'']
                     (example_heap, example_manager) in
     completed_url_list (state pm') = [example_url] \<and>
     failed_url_list (state pm') = [example_url] \<and>
     set (completed_url_list (state pm')) \<inter> set (failed_url_list (state pm')) \<noteq> {}"
  by (simp add: Let_def split_beta mark_completed_list mark_completed_failed_list
        mark_failed_failed_list mark_failed_completed example_manager_fields)

section \<open>Results on AdaptiveRateLimiter\<close>

lemma BlockLevel_value_range: "0 \<le> BlockLevel_value l \<and> BlockLevel_value l \<le> 3"
  by (cases l) simp_all

lemma BlockLevel_of_value: "BlockLevel_of (BlockLevel_value l) = Inr l"
  by (cases l) (simp_all add: BlockLevel_of_def)

lemma BlockLevel_of_in_range:
  assumes "0 \<le> v" and "v \<le> 3"
  shows "\<exists>l. BlockLevel_of v = Inr l \<and> BlockLevel_value l = v"
proof -
  from assms have "v = 0 \<or> v = 1 \<or> v = 2 \<or> v = 3" by arith
  then show ?thesis by (auto simp: BlockLevel_of_def)
qed

lemma report_failure_level:
  "\<exists>s'. report_failure c s = Inr s' \<and>
         BlockLevel_value (block_level s') =
           min (BlockLevel_value (block_level s) + (if c = Some 429 \<or> c = Some 403 then 2 else 1))
               (BlockLevel_value SEVERE) \<and>
         consecutive_successes s' = 0 \<and>
         consecutive_failures s' = consecutive_failures s + 1"
proof -
  let ?v = "min (BlockLevel_value (block_level s) + (if c = Some 429 \<or> c = Some 403 then 2 else 1)) 3"
  have "0 \<le> ?v" and "?v \<le> 3"
    using BlockLevel_value_range [of "block_level s"] by auto
  then obtain l where "BlockLevel_of ?v = Inr l" and "BlockLevel_value l = ?v"
    using BlockLevel_of_in_range by blast
  then show ?thesis
    by (auto simp: report_failure_def Let_def)
qed

lemma BlockLevel_value_3: "BlockLevel_value l = 3 \<longleftrightarrow> l = SEVERE"
  by (cases l) simp_all

lemma BlockLevel_value_0: "BlockLevel_value l = 0 \<longleftrightarrow> l = NONE"
  by (cases l) simp_all

lemma report_failures_total:
  "\<exists>s'. report_failures cs s = Inr s' \<and>
         BlockLevel_value (block_level s) \<le> BlockLevel_value (block_level s')"
proof (induction cs arbitrary: s)
  case Nil
  show ?case by simp
next
  case (Cons c cs)
  obtain s1 where s1: "report_failure c s = Inr s1"
    and l1: "BlockLevel_value (block_level s1) =
               min (BlockLevel_value (block_level s) + (if c = Some 429 \<or> c = Some 403 then 2 else 1))
                   (BlockLevel_value SEVERE)"
    using report_failure_level [of c s] by blast
  obtain s' where s': "report_failures cs s1 = Inr s'"
    and l': "BlockLevel_value (block_level s1) \<le> BlockLevel_value (block_level s')"
    using Cons.IH [of s1] by blast
  have "BlockLevel_value (block_level s) \<le> BlockLevel_value (block_level s1)"
    using l1 BlockLevel_value_range [of "block_level s"] by (auto split: if_splits)
  with s1 s' l' show ?case by auto
qed

text \<open>
  Claim C4. From \<open>NONE\<close>, one \<open>report_failure(429)\<close> gives \<open>MODERATE\<close> and the second
  gives \<open>SEVERE\<close>; whatever status codes are reported after these two calls, the level is
  still \<open>SEVERE\<close>. Every call returns (the enum constructor never raises) with the level
  \<open>min(level + escalation, SEVERE)\<close>, the escalation being 2 for 429 and 403 and 1 for
  anything else, and no sequence of calls from any state leaves a level above \<open>SEVERE\<close>.
\<close>
theorem report_failure_escalation:
  assumes "block_level s = NONE"
  shows "(\<exists>s1 s2. report_failure (Some 429) s = Inr s1 \<and> block_level s1 = MODERATE \<and>
                  report_failure (Some 429) s1 = Inr s2 \<and> block_level s2 = SEVERE) \<and>
         (\<forall>codes. \<exists>s'. report_failures (Some 429 # Some 429 # codes) s = Inr s' \<and>
                        block_level s' = SEVERE) \<and>
         (\<forall>t c. \<exists>t'. report_failure c t = Inr t' \<and>
                   BlockLevel_value (block_level t') =
                     min (BlockLevel_value (block_level t) +
                            (if c = Some 429 \<or> c = Some 403 then 2 else 1))
                         (BlockLevel_value SEVERE)) \<and>
         (\<forall>t codes. \<exists>t'. report_failures codes t = Inr t' \<and>
                   BlockLevel_value (block_level t') \<le> BlockLevel_value SEVERE)"
proof -
  obtain s1 where s1: "report_failure (Some 429) s = Inr s1"
    and l1: "BlockLevel_value (block_level s1) = 2"
    using report_failure_level [of "Some 429" s] assms by auto
  obtain s2 where s2: "report_failure (Some 429) s1 = Inr s2"
    and l2: "BlockLevel_value (block_level s2) = 3"
    using report_failure_level [of "Some 429" s1] l1 by auto
  have m: "block_level s1 = MODERATE"
    using l1 by (cases "block_level s1") simp_all
  have sev: "block_level s2 = SEVERE"
    using l2 by (simp add: BlockLevel_value_3)
  have first: "\<exists>s1 s2. report_failure (Some 429) s = Inr s1 \<and> block_level s1 = MODERATE \<and>
                  report_failure (Some 429) s1 = Inr s2 \<and> block_level s2 = SEVERE"
    using s1 s2 m sev by blast
  have stays: "\<exists>s'. report_failures (Some 429 # Some 429 # codes) s = Inr s' \<and>
                     block_level s' = SEVERE" for codes
  proof -
    obtain s' where s': "report_failures codes s2 = Inr s'"
      and le: "BlockLevel_value (block_level s2) \<le> BlockLevel_value (block_level s')"
      using report_failures_total [of codes s2] by blast
    have "BlockLevel_value (block_level s') = 3"
      using le l2 BlockLevel_value_range [of "block_level s'"] by simp
    then have "block_level s' = SEVERE" by (simp add: BlockLevel_value_3)
    with s1 s2 s' show ?thesis by simp
  qed
  have rule: "\<exists>t'. report_failure c t = Inr t' \<and>
                   BlockLevel_value (block_level t') =
                     min (BlockLevel_value (block_level t) +
                            (if c = Some 429 \<or> c = Some 403 then 2 else 1))
                         (BlockLevel_value SEVERE)" for t c
    using report_failure_level [of c t] by blast
  have bound: "\<exists>t'. report_failures codes t = Inr t' \<and>
                   BlockLevel_value (block_level t') \<le> BlockLevel_value SEVERE" for t codes
  proof -
    obtain t' where "report_failures codes t = Inr t'"
      using report_failures_total [of codes t] by blast
    then show ?thesis
      using BlockLevel_value_range [of "block_level t'"] by simp
  qed
  from first stays rule bound show ?thesis by blast
qed

text \<open>The theorem of C4 on a new limiter.\<close>
theorem report_failure_escalation_witness:
  "(\<exists>s1 s2. report_failure (Some 429) AdaptiveRateLimiter_init = Inr s1 \<and> block_level s1 = MODERATE \<and>
            report_failure (Some 429) s1 = Inr s2 \<and> block_level s2 = SEVERE) \<and>
   (\<exists>s'. report_failures [Some 429, Some 429, None, Some 500, Some 403] AdaptiveRateLimiter_init = Inr s' \<and>
          block_level s' = SEVERE)"
  using report_failure_escalation [of AdaptiveRateLimiter_init]
  by (simp add: AdaptiveRateLimiter_init_def)

text \<open>
  Claim C9. \<open>report_success\<close> always returns and resets \<open>consecutive_failures\<close>. When the
  incremented success counter is at least 5 and the level is above \<open>NONE\<close>, the level goes
  down by exactly one step and the success counter restarts at 0; otherwise the level is
  unchanged and the counter is one higher. The level never drops by more than one step.
\<close>
theorem report_success_step:
  "\<exists>s'. report_success s = Inr s' \<and>
         consecutive_failures s' = 0 \<and>
         (if consecutive_successes s + 1 \<ge> 5 \<and> BlockLevel_value (block_level s) > BlockLevel_value NONE
          then BlockLevel_value (block_level s') = BlockLevel_value (block_level s) - 1 \<and>
               consecutive_successes s' = 0
          else block_level s' = block_level s \<and>
               consecutive_successes s' = consecutive_successes s + 1) \<and>
         BlockLevel_value (block_level s') \<le> BlockLevel_value (block_level s) \<and>
         BlockLevel_value (block_level s) - BlockLevel_value (block_level s') \<le> 1"
proof (cases "consecutive_successes s + 1 \<ge> 5 \<and> BlockLevel_value (block_level s) > 0")
  case True
  let ?v = "BlockLevel_value (block_level s) - 1"
  have "0 \<le> ?v" and "?v \<le> 3"
    using True BlockLevel_value_range [of "block_level s"] by auto
  then obtain l where "BlockLevel_of ?v = Inr l" and "BlockLevel_value l = ?v"
    using BlockLevel_of_in_range by blast
  with True show ?thesis
    by (auto simp: report_success_def Let_def)
next
  case False
  then show ?thesis
    by (auto simp: report_success_def Let_def)
qed

text \<open>The theorem of C9 at the fifth success in a row on level \<open>MODERATE\<close>.\<close>
theorem report_success_step_witness:
  "\<exists>s'. report_success (AdaptiveRateLimiter_init\<lparr>block_level := MODERATE, consecutive_successes := 4,
                          consecutive_failures := 2\<rparr>) = Inr s' \<and>
         consecutive_failures s' = 0 \<and> block_level s' = LIGHT \<and> consecutive_successes s' = 0"
  using report_success_step [of "AdaptiveRateLimiter_init\<lparr>block_level := MODERATE, consecutive_successes := 4,
                          consecutive_failures := 2\<rparr>"]
  by (auto simp: AdaptiveRateLimiter_init_def report_success_def Let_def BlockLevel_of_def)

section \<open>Results on TokenBucketRateLimiter\<close>

lemma py_float_small:
  assumes "\<bar>k\<bar> < 2 ^ 53"
  shows "py_float k = Inr (Finite (real_of_int k))"
proof -
  have "bitlen \<bar>k\<bar> \<le> 53"
  proof (cases "k = 0")
    case True
    then show ?thesis by simp
  next
    case False
    then have pos: "0 < \<bar>k\<bar>" by simp
    have "2 ^ nat (bitlen \<bar>k\<bar> - 1) \<le> \<bar>k\<bar>"
      using bitlen_bounds [OF pos] by simp
    with assms have "(2::int) ^ nat (bitlen \<bar>k\<bar> - 1) < 2 ^ 53" by linarith
    then have "nat (bitlen \<bar>k\<bar> - 1) < 53"
      by (rule power_less_imp_less_exp [of "2::int", rotated]) simp
    then show ?thesis by linarith
  qed
  then show ?thesis
    by (simp add: py_float_def Let_def)
qed

lemma default_capacity_truncated:
  assumes "0 \<le> r" and "r < 2 ^ 53"
  shows "TokenBucketRateLimiter_init (Finite r) None now =
           Inr \<lparr> rate = Finite r, capacity = \<lfloor>r\<rfloor>,
                 tokens = Finite (real_of_int \<lfloor>r\<rfloor>), last_update = now \<rparr>"
proof -
  have "0 \<le> \<lfloor>r\<rfloor>" using assms by simp
  moreover have "\<lfloor>r\<rfloor> < 2 ^ 53" using assms by (simp add: floor_less_iff)
  ultimately have "\<bar>\<lfloor>r\<rfloor>\<bar> < 2 ^ 53" by simp
  then have "py_float \<lfloor>r\<rfloor> = Inr (Finite (real_of_int \<lfloor>r\<rfloor>))"
    by (rule py_float_small)
  then show ?thesis
    using assms by (simp add: TokenBucketRateLimiter_init_def py_int_def)
qed

lemma infinite_rate_raises:
  "TokenBucketRateLimiter_init PosInf None now = Inl OverflowError"
  by (simp add: TokenBucketRateLimiter_init_def py_int_def)

text \<open>
  Claim C8 against the code. Without a capacity argument the constructor sets the capacity
  to \<open>int(rate)\<close>, not to the rate: at the rate \<open>2.5\<close> the capacity is \<open>2\<close> and the bucket
  starts with \<open>2.0\<close> tokens, and at the rate \<open>0.5\<close> the capacity is \<open>0\<close> and the bucket starts
  empty. The docstring of the constructor says that the capacity defaults to the rate.
\<close>
theorem default_capacity_truncates_rate:
  "TokenBucketRateLimiter_init (Finite (5 / 2)) None (Finite 0) =
     Inr \<lparr> rate = Finite (5 / 2), capacity = 2, tokens = Finite 2, last_update = Finite 0 \<rparr> \<and>
   TokenBucketRateLimiter_init (Finite (1 / 2)) None (Finite 0) =
     Inr \<lparr> rate = Finite (1 / 2), capacity = 0, tokens = Finite 0, last_update = Finite 0 \<rparr>"
proof -
  have a: "\<lfloor>5 / 2 :: real\<rfloor> = 2" by linarith
  have b: "\<lfloor>1 / 2 :: real\<rfloor> = 0" by linarith
  have c: "py_float 2 = Inr (Finite 2)"
    using py_float_small [of 2] by simp
  have d: "py_float 0 = Inr (Finite 0)"
    using py_float_small [of 0] by simp
  show ?thesis
    by (simp add: TokenBucketRateLimiter_init_def py_int_def a b c d)
qed

section \<open>Results on the semaphores of a fetch attempt\<close>














section \<open>Results on the pattern store\<close>

lemma url_shapes:
  "re_sub_digits (CHR ''='') (re_sub_digits (CHR ''/'') ''/articles/42'') = ''/articles/*''"
  "re_sub_digits (CHR ''='') (re_sub_digits (CHR ''/'') ''/articles/7'') = ''/articles/*''"
  "re_sub_digits (CHR ''='') (re_sub_digits (CHR ''/'') ''/articles/42/comments'') = ''/articles/*/comments''"
  by (simp_all add: is_digit_def)

lemma fnmatch_comments: "fnmatch ''/articles/*/comments'' ''/articles/*''"
  by simp

lemma fnmatch_star: "fnmatch n ps \<Longrightarrow> fnmatch n (CHR ''*'' # ps)"
  by (cases n) simp_all

lemma fnmatch_refl: "fnmatch x x"
  by (induction x) (simp_all add: fnmatch_star)

lemma stored_record_cases:
  "stored_record ps d k = Some r \<longleftrightarrow>
     (\<exists>e ups. map_of ps d = Some (JObj e) \<and> map_of e ''url_patterns'' = Some (JObj ups) \<and>
               map_of ups k = Some r)"
  by (auto simp: stored_record_def split: option.splits json.splits)

lemma find_pattern_exact:
  assumes "stored_record (patterns em) (netloc (urlparse u)) (url_to_pattern urlparse u) = Some r"
  shows "find_pattern urlparse em u = Inr (Some r)"
proof -
  obtain e ups where "map_of (patterns em) (netloc (urlparse u)) = Some (JObj e)"
    and "map_of e ''url_patterns'' = Some (JObj ups)"
    and "map_of ups (url_to_pattern urlparse u) = Some r"
    using assms unfolding stored_record_cases by blast
  then show ?thesis
    by (simp add: find_pattern_def Let_def has_key_def dict_item_def as_dict_def dict_get_def)
qed

lemma find_first_key:
  assumes "map_of ups k = Some r" and "P k"
  shows "\<exists>p c. find (\<lambda>(p, c). P p) ups = Some (p, c) \<and> P p \<and> map_of ups p = Some c"
  using assms
proof (induction ups)
  case Nil
  then show ?case by simp
next
  case (Cons a ups)
  obtain p c where a: "a = (p, c)" by (cases a)
  show ?case
  proof (cases "P p")
    case True
    then show ?thesis by (simp add: a)
  next
    case False
    with Cons.prems a have "p \<noteq> k" by auto
    with Cons.prems a have "map_of ups k = Some r" by simp
    from Cons.IH [OF this Cons.prems(2)] obtain p' c' where
      f: "find (\<lambda>(p, c). P p) ups = Some (p', c')" and pp: "P p'" and m: "map_of ups p' = Some c'"
      by blast
    from pp False have "p' \<noteq> p" by auto
    with f pp m False show ?thesis by (simp add: a)
  qed
qed

lemma find_pattern_wildcard:
  assumes rec: "stored_record (patterns em) (netloc (urlparse u)) k = Some r"
      and m: "fnmatch (url_to_pattern urlparse u) k"
  shows "\<exists>p c. find_pattern urlparse em u = Inr (Some c) \<and>
               stored_record (patterns em) (netloc (urlparse u)) p = Some c \<and>
               fnmatch (url_to_pattern urlparse u) p"
proof -
  let ?d = "netloc (urlparse u)" and ?s = "url_to_pattern urlparse u"
  obtain e ups where e: "map_of (patterns em) ?d = Some (JObj e)"
    and ups: "map_of e ''url_patterns'' = Some (JObj ups)"
    and k: "map_of ups k = Some r"
    using rec unfolding stored_record_cases by blast
  show ?thesis
  proof (cases "map_of ups ?s")
    case (Some c)
    have "stored_record (patterns em) ?d ?s = Some c"
      unfolding stored_record_cases using e ups Some by blast
    moreover from this have "find_pattern urlparse em u = Inr (Some c)"
      using find_pattern_exact [of em urlparse u c] by simp
    moreover have "fnmatch ?s ?s"
      by (rule fnmatch_refl)
    ultimately show ?thesis by blast
  next
    case None
    obtain p c where f: "find (\<lambda>(p, c). fnmatch ?s p) ups = Some (p, c)"
      and pm: "fnmatch ?s p" and pc: "map_of ups p = Some c"
      using find_first_key [of ups k r "fnmatch ?s"] k m by blast
    have "find_pattern urlparse em u = Inr (Some c)"
      using e ups None f
      by (simp add: find_pattern_def Let_def has_key_def dict_item_def as_dict_def dict_get_def)
    moreover have "stored_record (patterns em) ?d p = Some c"
      unfolding stored_record_cases using e ups pc by blast
    ultimately show ?thesis using pm by blast
  qed
qed

lemma domain_shapes_mem:
  "stored_record ps d p = Some c \<Longrightarrow> p \<in> set (domain_shapes ps d)"
proof -
  assume "stored_record ps d p = Some c"
  then obtain e ups where e: "map_of ps d = Some (JObj e)"
    and ups: "map_of e ''url_patterns'' = Some (JObj ups)" and p: "map_of ups p = Some c"
    unfolding stored_record_cases by blast
  from p have "(p, c) \<in> set ups" by (rule map_of_SomeD)
  then have "p \<in> fst ` set ups" by force
  with e ups show ?thesis by (simp add: domain_shapes_def)
qed

text \<open>
  Claim C2, as amended. Let the store hold a record under the shape \<open>/articles/*\<close> for the
  origin of the URL. For the paths \<open>/articles/42\<close> and \<open>/articles/7\<close> the URL's shape is
  \<open>/articles/*\<close> itself and \<open>find_pattern\<close> returns that record. For the path
  \<open>/articles/42/comments\<close> the shape is \<open>/articles/*/comments\<close>, and \<open>find_pattern\<close> still
  returns a record, never \<open>None\<close>: the star of the stored shape matches across the slash.
  It returns the \<open>/articles/*\<close> record itself when no other shape stored for the origin
  matches \<open>/articles/*/comments\<close>; this last part is stated for stored shapes without
  \<open>[\<close>, where \<open>fnmatch\<close> is modelled exactly.
\<close>
theorem find_pattern_articles_shape:
  assumes "stored_record (patterns em) (netloc (urlparse u)) ''/articles/*'' = Some r"
  shows "(path (urlparse u) = ''/articles/42'' \<or> path (urlparse u) = ''/articles/7''
            \<longrightarrow> find_pattern urlparse em u = Inr (Some r)) \<and>
         (path (urlparse u) = ''/articles/42/comments''
            \<longrightarrow> (\<exists>c. find_pattern urlparse em u = Inr (Some c)) \<and>
                ((\<forall>p \<in> set (domain_shapes (patterns em) (netloc (urlparse u))).
                     p \<noteq> ''/articles/*'' \<longrightarrow>
                       CHR ''['' \<notin> set p \<and> \<not> fnmatch ''/articles/*/comments'' p)
                   \<longrightarrow> find_pattern urlparse em u = Inr (Some r)))"
proof (intro conjI impI)
  assume "path (urlparse u) = ''/articles/42'' \<or> path (urlparse u) = ''/articles/7''"
  then have "url_to_pattern urlparse u = ''/articles/*''"
    by (auto simp: url_to_pattern_def Let_def is_digit_def)
  with assms show "find_pattern urlparse em u = Inr (Some r)"
    using find_pattern_exact [of em urlparse u r] by simp
next
  assume "path (urlparse u) = ''/articles/42/comments''"
  then have s: "url_to_pattern urlparse u = ''/articles/*/comments''"
    by (simp add: url_to_pattern_def Let_def is_digit_def)
  then show "\<exists>c. find_pattern urlparse em u = Inr (Some c)"
    using find_pattern_wildcard [of em urlparse u "''/articles/*''" r] assms fnmatch_comments by auto
next
  assume "path (urlparse u) = ''/articles/42/comments''"
    and only: "\<forall>p \<in> set (domain_shapes (patterns em) (netloc (urlparse u))).
                 p \<noteq> ''/articles/*'' \<longrightarrow>
                   CHR ''['' \<notin> set p \<and> \<not> fnmatch ''/articles/*/comments'' p"
  then have s: "url_to_pattern urlparse u = ''/articles/*/comments''"
    by (simp add: url_to_pattern_def Let_def is_digit_def)
  obtain p c where f: "find_pattern urlparse em u = Inr (Some c)"
    and pc: "stored_record (patterns em) (netloc (urlparse u)) p = Some c"
    and pm: "fnmatch ''/articles/*/comments'' p"
    using find_pattern_wildcard [of em urlparse u "''/articles/*''" r] assms fnmatch_comments s by auto
  have "p = ''/articles/*''"
    using only domain_shapes_mem [of "patterns em" "netloc (urlparse u)" p c] pc pm by blast
  with pc assms f show "find_pattern urlparse em u = Inr (Some r)" by simp
qed

lemma example_store_record:
  "stored_record (patterns example_store) ''example.com'' ''/articles/*'' = Some example_record"
  by (simp add: example_store_def stored_record_def)

lemma parse_examples:
  "urlparse_plain ''https://example.com/articles/42'' =
     \<lparr>netloc = ''example.com'', path = ''/articles/42''\<rparr>"
  "urlparse_plain ''https://example.com/articles/7'' =
     \<lparr>netloc = ''example.com'', path = ''/articles/7''\<rparr>"
  "urlparse_plain ''https://example.com/articles/42/comments'' =
     \<lparr>netloc = ''example.com'', path = ''/articles/42/comments''\<rparr>"
  by (simp_all add: urlparse_plain_def Let_def)

text \<open>The theorem of C2 on a store whose only shape for \<open>example.com\<close> is \<open>/articles/*\<close>.\<close>
theorem find_pattern_articles_shape_witness:
  "find_pattern urlparse_plain example_store ''https://example.com/articles/42'' =
     Inr (Some example_record) \<and>
   find_pattern urlparse_plain example_store ''https://example.com/articles/7'' =
     Inr (Some example_record) \<and>
   (\<exists>c. find_pattern urlparse_plain example_store ''https://example.com/articles/42/comments'' =
     Inr (Some c))"
  using find_pattern_articles_shape [of example_store urlparse_plain "''https://example.com/articles/42''" example_record]
        find_pattern_articles_shape [of example_store urlparse_plain "''https://example.com/articles/7''" example_record]
        find_pattern_articles_shape [of example_store urlparse_plain "''https://example.com/articles/42/comments''" example_record]
  by (simp add: parse_examples example_store_record)

text \<open>
  Claim C2 as stated fails: the lookup of \<open>/articles/42/comments\<close> does return the record
  stored under \<open>/articles/*\<close>.
\<close>
theorem find_pattern_wildcard_spans_slash:
  "find_pattern urlparse_plain example_store ''https://example.com/articles/42/comments'' =
     Inr (Some example_record)"
  by (simp add: find_pattern_def Let_def parse_examples url_to_pattern_def is_digit_def
        example_store_def has_key_def dict_item_def as_dict_def dict_get_def)

lemma stored_record_update_same:
  "stored_record
     (AList.update d (JObj (AList.update ''url_patterns'' (JObj (AList.update k r ups)) e)) ps) d k
   = Some r"
  by (simp add: stored_record_def update_conv')

lemma stored_record_set_meta:
  assumes "set_meta k v ps = Inr ps'" and "k \<noteq> ''url_patterns''"
  shows "stored_record ps' d shape = stored_record ps d shape"
proof -
  obtain md where meta: "map_of ps ''_meta'' = Some (JObj md)"
    and ps': "ps' = AList.update ''_meta'' (JObj (AList.update k v md)) ps"
    using assms(1)
    by (auto simp: set_meta_def bind_err_eq_Inr dict_item_eq_Inr as_dict_eq_Inr)
  show ?thesis
  proof (cases "d = ''_meta''")
    case True
    then show ?thesis
      using meta assms(2) by (simp add: ps' stored_record_def update_conv')
  next
    case False
    then show ?thesis
      by (simp add: ps' stored_record_def update_conv')
  qed
qed

lemma merged_record_status:
  "record_status (JObj (merged_record t1 t2 pattern_data existing n)) = Some (JStr ''active'')"
  by (simp add: record_status_def merged_record_def)

lemma save_pattern_status:
  assumes "save_pattern urlparse t1 t2 t3 u pattern_data em = Inr em'"
  shows "\<exists>r. stored_record (patterns em') (netloc (urlparse u)) (url_to_pattern urlparse u) = Some r \<and>
             record_status r = Some (JStr ''active'') \<and>
             find_pattern urlparse em' u = Inr (Some r)"
proof -
  let ?d = "netloc (urlparse u)" and ?k = "url_to_pattern urlparse u"
  from assms obtain p1 e1 ups existing n p2 p3 p4 tp ts where
    p2: "p2 = AList.update ?d
               (JObj (AList.update ''url_patterns''
                  (JObj (AList.update ?k (JObj (merged_record t1 t2 pattern_data existing n)) ups)) e1))
               p1"
    and m1: "set_meta ''total_patterns'' (JInt tp) p2 = Inr p3"
    and m2: "set_meta ''total_successes'' (JInt ts) p3 = Inr p4"
    and sv: "save_patterns t3 (em\<lparr>patterns := p4\<rparr>) = Inr em'"
    unfolding save_pattern_def Let_def bind_err_eq_Inr by blast
  from sv obtain p5 where m3: "set_meta ''last_updated'' (JStr t3) p4 = Inr p5"
    and em': "patterns em' = p5"
    by (auto simp: save_patterns_def bind_err_eq_Inr)
  let ?r = "JObj (merged_record t1 t2 pattern_data existing n)"
  have "stored_record p2 ?d ?k = Some ?r"
    unfolding p2 by (rule stored_record_update_same)
  then have "stored_record p3 ?d ?k = Some ?r"
    using stored_record_set_meta [OF m1] by simp
  then have "stored_record p4 ?d ?k = Some ?r"
    using stored_record_set_meta [OF m2] by simp
  then have "stored_record p5 ?d ?k = Some ?r"
    using stored_record_set_meta [OF m3] by simp
  then have r: "stored_record (patterns em') ?d ?k = Some ?r"
    by (simp add: em')
  moreover have "find_pattern urlparse em' u = Inr (Some ?r)"
    using find_pattern_exact [of em' urlparse u ?r] r by simp
  ultimately show ?thesis
    using merged_record_status by blast
qed

lemma list_all_lookup:
  "list_all P (map snd al) \<Longrightarrow> map_of al k = Some v \<Longrightarrow> P v"
  by (induction al) (auto split: if_splits)

lemma list_all_update:
  "list_all P (map snd al) \<Longrightarrow> P v \<Longrightarrow> list_all P (map snd (AList.update k v al))"
  by (induction al) auto

lemma sum_err_returns:
  "list_all (\<lambda>x. returned (f x)) xs \<Longrightarrow> returned (sum_err (map f xs))"
  by (induction xs) (auto simp: returned_def split: sum.splits)

lemma returned_iff: "returned m \<longleftrightarrow> (\<exists>x. m = Inr x)"
  by (cases m) (simp_all add: returned_def)

lemma entry_okD:
  assumes "entry_ok v"
  obtains e where "v = JObj e"
    and "map_of e ''url_patterns'' = None \<or>
         (\<exists>ups. map_of e ''url_patterns'' = Some (JObj ups) \<and> list_all count_ok (map snd ups))"
proof (cases v)
  case (JObj e)
  show ?thesis
  proof (cases "map_of e ''url_patterns''")
    case None
    with JObj that show ?thesis by blast
  next
    case (Some w)
    with JObj assms obtain ups where "w = JObj ups" and "list_all count_ok (map snd ups)"
      by (cases w) (simp_all add: entry_ok_def)
    with JObj Some that show ?thesis by blast
  qed
qed (insert assms, simp_all add: entry_ok_def)

lemma count_okD:
  assumes "count_ok r"
  obtains rd where "r = JObj rd"
    and "returned (py_summand (dict_get rd ''success_count'' (JInt 0)))"
    and "\<exists>n. py_add1 (dict_get rd ''success_count'' (JInt 0)) = Inr (JInt n)"
  using assms
  by (auto simp: count_ok_def dict_get_def py_summand_def py_add1_def returned_def
           split: json.splits option.splits)

lemma total_patterns_returns:
  assumes "list_all entry_ok (map snd ps)"
  shows "returned (total_patterns ps)"
proof -
  have "list_all entry_ok (domain_entries ps)"
    using assms by (induction ps) (auto simp: domain_entries_def)
  then have "list_all (\<lambda>d. returned (bind_err (as_dict d)
                (\<lambda>dd. py_len (dict_get dd ''url_patterns'' (JObj []))))) (domain_entries ps)"
    by (rule list.pred_mono_strong)
       (auto elim!: entry_okD simp: as_dict_def dict_get_def py_len_def returned_def)
  then show ?thesis
    unfolding total_patterns_def by (rule sum_err_returns)
qed

lemma total_successes_returns:
  assumes "list_all entry_ok (map snd ps)"
  shows "returned (total_successes ps)"
proof -
  have inner: "returned (sum_err (map (\<lambda>p. bind_err (as_dict p)
                    (\<lambda>pp. py_summand (dict_get pp ''success_count'' (JInt 0)))) (map snd ups)))"
    if "list_all count_ok (map snd ups)" for ups :: pydict
  proof (rule sum_err_returns)
    show "list_all (\<lambda>p. returned (bind_err (as_dict p)
            (\<lambda>pp. py_summand (dict_get pp ''success_count'' (JInt 0))))) (map snd ups)"
      using that
      by (rule list.pred_mono_strong) (auto elim!: count_okD simp: as_dict_def)
  qed
  have "list_all entry_ok (domain_entries ps)"
    using assms by (induction ps) (auto simp: domain_entries_def)
  then have "list_all (\<lambda>d. returned (bind_err (as_dict d) (\<lambda>dd.
                 bind_err (as_dict (dict_get dd ''url_patterns'' (JObj []))) (\<lambda>ups.
                   sum_err (map (\<lambda>p. bind_err (as_dict p)
                                  (\<lambda>pp. py_summand (dict_get pp ''success_count'' (JInt 0))))
                              (map snd ups)))))) (domain_entries ps)"
  proof (rule list.pred_mono_strong)
    fix d assume "entry_ok d"
    then obtain e where d: "d = JObj e"
      and u: "map_of e ''url_patterns'' = None \<or>
         (\<exists>ups. map_of e ''url_patterns'' = Some (JObj ups) \<and> list_all count_ok (map snd ups))"
      by (rule entry_okD)
    from u show "returned (bind_err (as_dict d) (\<lambda>dd.
                 bind_err (as_dict (dict_get dd ''url_patterns'' (JObj []))) (\<lambda>ups.
                   sum_err (map (\<lambda>p. bind_err (as_dict p)
                                  (\<lambda>pp. py_summand (dict_get pp ''success_count'' (JInt 0))))
                              (map snd ups)))))"
    proof
      assume "map_of e ''url_patterns'' = None"
      then show ?thesis by (simp add: d as_dict_def dict_get_def returned_def)
    next
      assume "\<exists>ups. map_of e ''url_patterns'' = Some (JObj ups) \<and> list_all count_ok (map snd ups)"
      then obtain ups where "map_of e ''url_patterns'' = Some (JObj ups)"
        and "list_all count_ok (map snd ups)" by blast
      then show ?thesis
        using inner [of ups] by (simp add: d as_dict_def dict_get_def)
    qed
  qed
  then show ?thesis
    unfolding total_successes_def by (rule sum_err_returns)
qed

lemma set_meta_returns:
  assumes "store_ok ps" and "k \<noteq> ''url_patterns''"
  shows "\<exists>ps'. set_meta k v ps = Inr ps' \<and> store_ok ps'"
proof -
  from assms(1) obtain m where m: "map_of ps ''_meta'' = Some m"
    by (auto simp: store_ok_def has_key_def)
  from assms(1) have all: "list_all entry_ok (map snd ps)"
    by (simp add: store_ok_def)
  from all m have "entry_ok m" by (rule list_all_lookup)
  then obtain md where md: "m = JObj md"
    and u: "map_of md ''url_patterns'' = None \<or>
         (\<exists>ups. map_of md ''url_patterns'' = Some (JObj ups) \<and> list_all count_ok (map snd ups))"
    by (rule entry_okD)
  have "entry_ok (JObj (AList.update k v md))"
    using u assms(2) by (auto simp: entry_ok_def update_conv')
  with all have "list_all entry_ok (map snd (AList.update ''_meta'' (JObj (AList.update k v md)) ps))"
    by (rule list_all_update)
  then have "store_ok (AList.update ''_meta'' (JObj (AList.update k v md)) ps)"
    by (simp add: store_ok_def has_key_def update_conv')
  then show ?thesis
    using m md by (simp add: set_meta_def dict_item_def as_dict_def)
qed

lemma save_pattern_returns:
  assumes ok: "store_ok (patterns em)"
  shows "returned (save_pattern urlparse t1 t2 t3 u pattern_data em)"
proof -
  let ?d = "netloc (urlparse u)" and ?k = "url_to_pattern urlparse u"
  define p1 where "p1 = (if \<not> has_key (patterns em) ?d
                then AList.update ?d (JObj [(''url_patterns'', JObj [])]) (patterns em)
                else patterns em)"
  have new: "entry_ok (JObj [(''url_patterns'', JObj [])])"
    by (simp add: entry_ok_def)
  have ok1: "store_ok p1"
    using ok new by (auto simp: p1_def store_ok_def has_key_def update_conv' intro: list_all_update)
  have "has_key p1 ?d"
    by (simp add: p1_def has_key_def update_conv')
  then obtain entry where entry: "map_of p1 ?d = Some entry"
    by (auto simp: has_key_def)
  from ok1 have all1: "list_all entry_ok (map snd p1)" by (simp add: store_ok_def)
  from all1 entry have "entry_ok entry" by (rule list_all_lookup)
  then obtain e0 where e0: "entry = JObj e0"
    and u0: "map_of e0 ''url_patterns'' = None \<or>
         (\<exists>ups. map_of e0 ''url_patterns'' = Some (JObj ups) \<and> list_all count_ok (map snd ups))"
    by (rule entry_okD)
  define e1 where "e1 = (if \<not> has_key e0 ''url_patterns''
                     then AList.update ''url_patterns'' (JObj []) e0 else e0)"
  obtain ups where ups: "map_of e1 ''url_patterns'' = Some (JObj ups)"
    and cups: "list_all count_ok (map snd ups)"
    using u0 by (auto simp: e1_def has_key_def update_conv')
  have "count_ok (dict_get ups ?k (JObj []))"
  proof (cases "map_of ups ?k")
    case None
    then show ?thesis by (simp add: dict_get_def count_ok_def)
  next
    case (Some r)
    with cups have "count_ok r" by (rule list_all_lookup)
    with Some show ?thesis by (simp add: dict_get_def)
  qed
  then obtain existing n where ex: "dict_get ups ?k (JObj []) = JObj existing"
    and n: "py_add1 (dict_get existing ''success_count'' (JInt 0)) = Inr (JInt n)"
    by (auto elim!: count_okD)
  define merged where "merged = merged_record t1 t2 pattern_data existing (JInt n)"
  define p2 where "p2 = AList.update ?d
                           (JObj (AList.update ''url_patterns''
                                    (JObj (AList.update ?k (JObj merged) ups)) e1)) p1"
  have "count_ok (JObj merged)"
    by (simp add: merged_def merged_record_def count_ok_def)
  with cups have "list_all count_ok (map snd (AList.update ?k (JObj merged) ups))"
    by (rule list_all_update)
  then have "entry_ok (JObj (AList.update ''url_patterns''
                                    (JObj (AList.update ?k (JObj merged) ups)) e1))"
    by (simp add: entry_ok_def update_conv')
  with all1 have all2: "list_all entry_ok (map snd p2)"
    unfolding p2_def by (rule list_all_update)
  have ok2: "store_ok p2"
    using all2 ok1 by (simp add: store_ok_def p2_def has_key_def update_conv')
  obtain tp where tp: "total_patterns p2 = Inr tp"
    using total_patterns_returns [OF all2] by (auto simp: returned_iff)
  obtain p3 where p3: "set_meta ''total_patterns'' (JInt tp) p2 = Inr p3" and ok3: "store_ok p3"
    using set_meta_returns [OF ok2, of "''total_patterns''" "JInt tp"] by auto
  obtain ts where ts: "total_successes p3 = Inr ts"
    using total_successes_returns [of p3] ok3 by (auto simp: returned_iff store_ok_def)
  obtain p4 where p4: "set_meta ''total_successes'' (JInt ts) p3 = Inr p4" and ok4: "store_ok p4"
    using set_meta_returns [OF ok3, of "''total_successes''" "JInt ts"] by auto
  obtain p5 where p5: "set_meta ''last_updated'' (JStr t3) p4 = Inr p5"
    using set_meta_returns [OF ok4, of "''last_updated''" "JStr t3"] by auto
  have "save_pattern urlparse t1 t2 t3 u pattern_data em =
          Inr (em\<lparr>patterns := p5, patterns_file := Some p5\<rparr>)"
    using entry e0 ups ex n tp p3 ts p4 p5
    by (simp add: save_pattern_def Let_def p1_def [symmetric] e1_def [symmetric]
          dict_item_def as_dict_def merged_def [symmetric] p2_def [symmetric] save_patterns_def)
  then show ?thesis by (simp add: returned_def)
qed

text \<open>
  Claim C10. On a store of the shape the code writes, \<open>save_pattern(url, data)\<close> returns.
  Whenever it returns, the record stored for the URL's domain and shape has the status
  \<open>active\<close>, whatever the store held before and whatever \<open>data\<close> contains, and
  \<open>find_pattern\<close> on the same URL returns that record.
\<close>
theorem save_pattern_sets_status_active:
  "(store_ok (patterns em) \<longrightarrow> returned (save_pattern urlparse t1 t2 t3 u pattern_data em)) \<and>
   (\<forall>em'. save_pattern urlparse t1 t2 t3 u pattern_data em = Inr em' \<longrightarrow>
      (\<exists>r. stored_record (patterns em') (netloc (urlparse u)) (url_to_pattern urlparse u) = Some r \<and>
           record_status r = Some (JStr ''active'') \<and>
           find_pattern urlparse em' u = Inr (Some r)))"
  using save_pattern_returns [of em urlparse t1 t2 t3 u pattern_data]
        save_pattern_status [of urlparse t1 t2 t3 u pattern_data em]
  by blast

lemma example_store_ok: "store_ok (patterns example_store)"
  by (simp add: example_store_def example_record_def store_ok_def entry_ok_def count_ok_def
        has_key_def)

text \<open>
  The theorem of C10 on a store whose record for \<open>/articles/*\<close> had been retired: the call
  returns and the record is active again.
\<close>
theorem save_pattern_reactivates_retired_record:
  "record_status example_record = Some (JStr ''retired'') \<and>
   stored_record (patterns example_store) ''example.com'' ''/articles/*'' = Some example_record \<and>
   (\<exists>em' r. save_pattern urlparse_plain ''2024-02-01T10:00:00'' ''2024-02-01T10:00:01''
                ''2024-02-01T10:00:02'' ''https://example.com/articles/7'' [(''notes'', JStr ''ok'')]
                example_store = Inr em' \<and>
            stored_record (patterns em') ''example.com'' ''/articles/*'' = Some r \<and>
            record_status r = Some (JStr ''active''))"
proof -
  note inst = save_pattern_sets_status_active
    [of example_store urlparse_plain "''2024-02-01T10:00:00''" "''2024-02-01T10:00:01''"
        "''2024-02-01T10:00:02''" "''https://example.com/articles/7''" "[(''notes'', JStr ''ok'')]"]
  from inst example_store_ok obtain em' where
    s: "save_pattern urlparse_plain ''2024-02-01T10:00:00'' ''2024-02-01T10:00:01''
                ''2024-02-01T10:00:02'' ''https://example.com/articles/7'' [(''notes'', JStr ''ok'')]
                example_store = Inr em'"
    by (auto simp: returned_def split: sum.splits)
  have k: "url_to_pattern urlparse_plain ''https://example.com/articles/7'' = ''/articles/*''"
    by (simp add: url_to_pattern_def Let_def parse_examples is_digit_def)
  from inst s obtain r where
    "stored_record (patterns em') ''example.com'' ''/articles/*'' = Some r"
    "record_status r = Some (JStr ''active'')"
    by (auto simp: k parse_examples)
  with s show ?thesis
    by (auto simp: example_store_record) (simp add: example_record_def record_status_def)
qed

end
